theory Spec2Isabelle
  imports Complex_Main "HOL-Library.AList" "HOL-Library.Sublist" "HOL-Library.Multiset"
begin

section \<open>Budget planner (smartScanner.js, estimateApiCalls and generateScanStrategy)\<close>

text \<open>
  Counts are JavaScript numbers holding non-negative integers; they are modelled as
  \<open>nat\<close>, the remaining quota as \<open>int\<close> (the subtraction of the safety margin may go
  below zero). \<open>Math.ceil (a / 100)\<close> is the ceiling of the real quotient and
  \<open>Math.floor (a / b)\<close> is \<open>div\<close> on \<open>int\<close>, which rounds towards minus infinity.
\<close>

record estimate_options =
  fetchProfile :: bool
  fetchOrgs :: bool
  fetchKeys :: bool
  fetchGists :: bool
  avgCommitsPerRepo :: nat

text \<open>The defaults of the destructured \<open>options\<close> argument.\<close>

definition default_estimate_options :: estimate_options where
  "default_estimate_options =
     \<lparr>fetchProfile = True, fetchOrgs = True, fetchKeys = True, fetchGists = False,
      avgCommitsPerRepo = 50\<rparr>"

definition math_ceil_div100 :: "nat \<Rightarrow> nat" where
  "math_ceil_div100 n = nat (ceiling (real n / 100))"

definition estimateApiCalls :: "nat \<Rightarrow> estimate_options \<Rightarrow> nat" where
  "estimateApiCalls repoCount opts =
     (let calls = 0;
          calls = (if fetchProfile opts then calls + 1 else calls);
          calls = (if fetchOrgs opts then calls + 1 else calls);
          calls = (if fetchKeys opts then calls + 1 else calls);
          calls = (if fetchGists opts then calls + 1 else calls);
          calls = calls + math_ceil_div100 repoCount;
          calls = calls + repoCount * math_ceil_div100 (avgCommitsPerRepo opts)
      in calls)"

definition digit_char :: "nat \<Rightarrow> char" where
  "digit_char d = ''0123456789'' ! d"

fun show_nat :: "nat \<Rightarrow> string" where
  "show_nat n =
     (if n < 10 then [digit_char n] else show_nat (n div 10) @ [digit_char (n mod 10)])"

declare show_nat.simps [simp del]

definition show_int :: "int \<Rightarrow> string" where
  "show_int i = (if i < 0 then CHR ''-'' # show_nat (nat (- i)) else show_nat (nat i))"

record recommendation =
  rec_type :: string
  rec_message :: string
  rec_value :: "int option"

record scan_strategy =
  canComplete :: bool
  estimatedCalls :: nat
  rateLimitRemaining :: int
  recommendations :: "recommendation list"

definition generateScanStrategy :: "nat \<Rightarrow> int \<Rightarrow> estimate_options \<Rightarrow> scan_strategy" where
  "generateScanStrategy repoCount remaining opts =
     (let estimated = estimateApiCalls repoCount opts;
          strategy = \<lparr>canComplete = (int estimated \<le> remaining), estimatedCalls = estimated,
                      rateLimitRemaining = remaining, recommendations = []\<rparr>
      in if \<not> canComplete strategy then
           (let callsPerRepo = estimateApiCalls 1 opts;
                safeRepoCount = (remaining - 10) div int callsPerRepo
            in strategy\<lparr>recommendations :=
                 [\<lparr>rec_type = ''limit_repos'',
                   rec_message = ''Recommend limiting scan to '' @ show_int safeRepoCount
                                 @ '' repositories'',
                   rec_value = Some safeRepoCount\<rparr>,
                  \<lparr>rec_type = ''use_token'',
                   rec_message = ''Use a GitHub token to increase rate limit to 5000/hour'',
                   rec_value = None\<rparr>,
                  \<lparr>rec_type = ''skip_forks'',
                   rec_message = ''Skip forked repositories to reduce API calls'',
                   rec_value = None\<rparr>]\<rparr>)
         else strategy)"


section \<open>Email classifier (smartScanner.js, emailPatterns and classifyEmail)\<close>

text \<open>
  Strings are lists of characters of the type \<open>char\<close>, the code points below 256
  (ASCII and Latin-1); strings with a code unit from 256 on are outside the model. On
  these characters \<open>String.prototype.toLowerCase\<close> maps \<open>A\<close> to \<open>Z\<close> and the capital
  letters of Latin-1, U+00C0 to U+00DE without the multiplication sign U+00D7, to the
  small letters 32 places further, and leaves every other character as it is.
\<close>

definition latin1_capitals :: string where
  "latin1_capitals =
     [CHR 0xC0, CHR 0xC1, CHR 0xC2, CHR 0xC3, CHR 0xC4, CHR 0xC5, CHR 0xC6, CHR 0xC7,
      CHR 0xC8, CHR 0xC9, CHR 0xCA, CHR 0xCB, CHR 0xCC, CHR 0xCD, CHR 0xCE, CHR 0xCF,
      CHR 0xD0, CHR 0xD1, CHR 0xD2, CHR 0xD3, CHR 0xD4, CHR 0xD5, CHR 0xD6, CHR 0xD8,
      CHR 0xD9, CHR 0xDA, CHR 0xDB, CHR 0xDC, CHR 0xDD, CHR 0xDE]"

definition latin1_smalls :: string where
  "latin1_smalls =
     [CHR 0xE0, CHR 0xE1, CHR 0xE2, CHR 0xE3, CHR 0xE4, CHR 0xE5, CHR 0xE6, CHR 0xE7,
      CHR 0xE8, CHR 0xE9, CHR 0xEA, CHR 0xEB, CHR 0xEC, CHR 0xED, CHR 0xEE, CHR 0xEF,
      CHR 0xF0, CHR 0xF1, CHR 0xF2, CHR 0xF3, CHR 0xF4, CHR 0xF5, CHR 0xF6, CHR 0xF8,
      CHR 0xF9, CHR 0xFA, CHR 0xFB, CHR 0xFC, CHR 0xFD, CHR 0xFE]"

definition toLowerChar :: "char \<Rightarrow> char" where
  "toLowerChar c =
     (case map_of (zip (''ABCDEFGHIJKLMNOPQRSTUVWXYZ'' @ latin1_capitals)
                       (''abcdefghijklmnopqrstuvwxyz'' @ latin1_smalls)) c of
        Some d \<Rightarrow> d
      | None \<Rightarrow> c)"

definition toLowerCase :: "string \<Rightarrow> string" where
  "toLowerCase s = map toLowerChar s"

text \<open>\<open>email.split('@')\<close>: the pieces between the separators, always at least one.\<close>

fun split_at :: "string \<Rightarrow> string list" where
  "split_at [] = [[]]"
| "split_at (c # cs) =
     (if c = CHR ''@'' then [] # split_at cs
      else (case split_at cs of
              p # ps \<Rightarrow> (c # p) # ps
            | [] \<Rightarrow> [[c]]))"

text \<open>
  The regular expressions of \<open>emailPatterns.noreply\<close> have two shapes, all with the
  \<open>i\<close> flag: a literal searched anywhere in the input, and \<open>^.+literal$\<close>, which is one
  or more characters other than line terminators followed by the literal up to the end
  of the input. The literals are ASCII and written in lower case. Under the \<open>i\<close> flag
  a character of the input matches an ASCII character of the pattern when both have the
  same upper case, that is, on the characters modelled, when the pattern character is
  the lower case of the input character: no Latin-1 letter has an ASCII letter as its
  lower or upper case.
\<close>

datatype pattern = Search string | AnchoredSuffix string

fun regex_search :: "string \<Rightarrow> string \<Rightarrow> bool" where
  "regex_search lit [] = (lit = [])"
| "regex_search lit (c # cs) = (prefix lit (c # cs) \<or> regex_search lit cs)"

definition is_line_terminator :: "char \<Rightarrow> bool" where
  "is_line_terminator c = (c = CHR 0x0A \<or> c = CHR 0x0D)"

definition regex_anchored_suffix :: "string \<Rightarrow> string \<Rightarrow> bool" where
  "regex_anchored_suffix lit s =
     (length lit < length s
      \<and> drop (length s - length lit) (toLowerCase s) = lit
      \<and> list_all (\<lambda>c. \<not> is_line_terminator c) (take (length s - length lit) s))"

fun regex_test :: "pattern \<Rightarrow> string \<Rightarrow> bool" where
  "regex_test (Search lit) s = regex_search lit (toLowerCase s)"
| "regex_test (AnchoredSuffix lit) s = regex_anchored_suffix lit s"

definition noreply_patterns :: "pattern list" where
  "noreply_patterns =
     [Search ''noreply@'',
      Search ''no-reply@'',
      Search ''donotreply@'',
      AnchoredSuffix ''@users.noreply.github.com'',
      AnchoredSuffix ''@users.noreply.gitlab.com'',
      Search ''notifications@github.com'']"

definition disposable_domains :: "string list" where
  "disposable_domains =
     [''tempmail.org'', ''guerrillamail.com'', ''mailinator.com'', ''10minutemail.com'',
      ''throwaway.email'', ''temp-mail.org'', ''fakeinbox.com'', ''getnada.com'',
      ''maildrop.cc'', ''dispostable.com'', ''yopmail.com'', ''trashmail.com'',
      ''sharklasers.com'', ''guerrillamail.info'', ''grr.la'']"

definition commonPersonalDomains :: "string list" where
  "commonPersonalDomains =
     [''gmail.com'', ''yahoo.com'', ''hotmail.com'', ''outlook.com'',
      ''live.com'', ''icloud.com'', ''protonmail.com'', ''mail.com'']"

record classification_result =
  email :: string
  isValid :: bool
  isNoreply :: bool
  isDisposable :: bool
  domain :: "string option"
  classification :: string

definition classifyEmail :: "string \<Rightarrow> classification_result" where
  "classifyEmail addr =
     (let result = \<lparr>email = addr, isValid = True, isNoreply = False, isDisposable = False,
                    domain = None, classification = ''personal''\<rparr>;
          parts = split_at addr
      in if length parts \<noteq> 2 then result\<lparr>isValid := False\<rparr>
         else
           (let dom = toLowerCase (parts ! 1);
                result = result\<lparr>domain := Some dom\<rparr>
            in if list_ex (\<lambda>p. regex_test p addr) noreply_patterns
               then result\<lparr>isNoreply := True, classification := ''noreply''\<rparr>
               else if dom \<in> set disposable_domains
               then result\<lparr>isDisposable := True, classification := ''disposable''\<rparr>
               else if dom \<notin> set commonPersonalDomains
               then result\<lparr>classification := ''work''\<rparr>
               else result))"


section \<open>Identity aggregation (mergeEmailMaps, runGithubRecon, updateResultEmails, deduplicateEmails)\<close>

text \<open>
  A JavaScript \<open>Map\<close> is an association list in insertion order: \<open>m.has k\<close> is
  \<open>map_has k m\<close>, \<open>m.get k\<close> is \<open>map_of m k\<close>, and \<open>m.set k v\<close> is \<open>AList.update k v m\<close>,
  which replaces the value of a present key in place and appends an absent one.
  A \<open>Set\<close> is a list in insertion order without repetition, and \<open>s.add x\<close> is
  \<open>set_add x s\<close>. The sets held in a map are mutated through the map:
  \<open>m.get(k).add(x)\<close> is \<open>add_to k x m\<close>.
\<close>

definition set_add :: "'a \<Rightarrow> 'a list \<Rightarrow> 'a list" where
  "set_add x s = (if x \<in> set s then s else s @ [x])"

definition map_has :: "'k \<Rightarrow> ('k \<times> 'v) list \<Rightarrow> bool" where
  "map_has k m = (map_of m k \<noteq> None)"

text \<open>\<open>if (!m.has(k)) m.set(k, new Set())\<close>\<close>

definition ensure_set :: "'k \<Rightarrow> ('k \<times> 'a list) list \<Rightarrow> ('k \<times> 'a list) list" where
  "ensure_set k m = (if \<not> map_has k m then AList.update k [] m else m)"

definition add_to :: "'k \<Rightarrow> 'a \<Rightarrow> ('k \<times> 'a list) list \<Rightarrow> ('k \<times> 'a list) list" where
  "add_to k x m = AList.map_entry k (set_add x) m"

type_synonym email_map = "(string \<times> string list) list"

definition mergeEmailMaps :: "email_map \<Rightarrow> email_map \<Rightarrow> email_map" where
  "mergeEmailMaps target source =
     fold (\<lambda>(addr, names) target. fold (add_to addr) names (ensure_set addr target))
       source target"

text \<open>
  The part of the \<open>result\<close> object and the three maps that \<open>runGithubRecon\<close> keeps while
  it scans the repositories.
\<close>

record email_detail =
  detail_email :: string
  detail_names :: "string list"
  detail_classification :: string
  detail_domain :: "string option"
  detail_is_disposable :: bool
  detail_sources :: "string list"
  detail_repositories :: "string list"

record recon_state =
  emailsToName :: email_map
  emailsToRepo :: email_map
  emailSources :: email_map
  leaked_emails :: "string list"
  email_details :: "email_detail list"

definition initial_recon_state :: recon_state where
  "initial_recon_state =
     \<lparr>emailsToName = [], emailsToRepo = [], emailSources = [],
      leaked_emails = [], email_details = []\<rparr>"

text \<open>
  The body of the loop over \<open>newEmails.entries()\<close> (one email of one repository with the
  names seen for it), together with the counter \<open>newEmailsCount\<close>.
\<close>

definition recordCommitEmail ::
  "bool \<Rightarrow> string \<Rightarrow> string \<times> string list \<Rightarrow> recon_state \<times> nat \<Rightarrow> recon_state \<times> nat" where
  "recordCommitEmail skipNoreplyOrSmart repo entry acc =
     (case entry of (addr, names) \<Rightarrow>
      case acc of (st, newEmailsCount) \<Rightarrow>
        if skipNoreplyOrSmart \<and> isNoreply (classifyEmail addr) then (st, newEmailsCount)
        else
          (let st = st\<lparr>emailsToRepo := add_to addr repo (ensure_set addr (emailsToRepo st))\<rparr>;
               st = st\<lparr>emailSources :=
                          add_to addr ''commit'' (ensure_set addr (emailSources st))\<rparr>;
               newEmailsCount =
                 (if \<not> map_has addr (emailsToName st) then newEmailsCount + 1
                  else newEmailsCount);
               st = st\<lparr>emailsToName :=
                          fold (add_to addr) names (ensure_set addr (emailsToName st))\<rparr>
           in (st, newEmailsCount)))"

text \<open>\<open>updateResultEmails\<close>: the loop over \<open>emailsToName.entries()\<close>.\<close>

definition setOrEmpty :: "string list option \<Rightarrow> string list" where
  "setOrEmpty v = (case v of Some s \<Rightarrow> s | None \<Rightarrow> [])"

definition reportEntry ::
  "recon_state \<Rightarrow> bool \<Rightarrow> string \<times> string list \<Rightarrow> string list \<times> email_detail list
     \<Rightarrow> string list \<times> email_detail list" where
  "reportEntry st filterNoreply entry acc =
     (case entry of (addr, namesSet) \<Rightarrow>
      case acc of (allEmails, emailDetails) \<Rightarrow>
        (let cls = classifyEmail addr
         in if filterNoreply \<and> isNoreply cls then (allEmails, emailDetails)
            else (allEmails @ [addr],
                  emailDetails @
                    [\<lparr>detail_email = addr,
                      detail_names = namesSet,
                      detail_classification = classification cls,
                      detail_domain = domain cls,
                      detail_is_disposable = isDisposable cls,
                      detail_sources = setOrEmpty (map_of (emailSources st) addr),
                      detail_repositories = setOrEmpty (map_of (emailsToRepo st) addr)\<rparr>])))"

definition updateResultEmails :: "bool \<Rightarrow> recon_state \<Rightarrow> recon_state" where
  "updateResultEmails filterNoreply st =
     (case fold (reportEntry st filterNoreply) (emailsToName st) ([], []) of
        (allEmails, emailDetails) \<Rightarrow>
          st\<lparr>leaked_emails := allEmails, email_details := emailDetails\<rparr>)"

text \<open>
  One iteration of the loop over the repositories to scan, given what \<open>getEmails\<close>
  returned for the repository, and the whole loop followed by the final update of the
  result. The deep-scan sources are left out.
\<close>

definition scanRepository ::
  "bool \<Rightarrow> string \<times> email_map \<Rightarrow> recon_state \<Rightarrow> recon_state" where
  "scanRepository skipNoreplyOrSmart scan st =
     (case scan of (repo, newEmails) \<Rightarrow>
      case fold (recordCommitEmail skipNoreplyOrSmart repo) newEmails (st, 0) of
        (st, newEmailsCount) \<Rightarrow>
          if newEmailsCount > 0 then updateResultEmails skipNoreplyOrSmart st else st)"

definition collectEmails :: "bool \<Rightarrow> (string \<times> email_map) list \<Rightarrow> recon_state" where
  "collectEmails skipNoreplyOrSmart scans =
     updateResultEmails skipNoreplyOrSmart
       (fold (scanRepository skipNoreplyOrSmart) scans initial_recon_state)"

text \<open>\<open>SmartScanner.deduplicateEmails\<close>\<close>

record enriched_email =
  enriched_email :: string
  enriched_names :: "string list"
  enriched_classification :: string
  enriched_domain :: "string option"
  enriched_isDisposable :: bool

definition enrichEntry ::
  "string \<times> string list \<Rightarrow> (string \<times> enriched_email) list \<Rightarrow> (string \<times> enriched_email) list"
  where
  "enrichEntry entry enriched =
     (case entry of (addr, names) \<Rightarrow>
        (let cls = classifyEmail addr
         in if \<not> isValid cls \<or> isNoreply cls then enriched
            else AList.update addr
                   \<lparr>enriched_email = addr,
                    enriched_names = names,
                    enriched_classification = classification cls,
                    enriched_domain = domain cls,
                    enriched_isDisposable = isDisposable cls\<rparr> enriched))"

definition deduplicateEmails :: "email_map \<Rightarrow> (string \<times> enriched_email) list" where
  "deduplicateEmails emailsMap = fold enrichEntry emailsMap []"

text \<open>The elements of the set a map holds for a key, none when the key is absent.\<close>

definition entry_set :: "email_map \<Rightarrow> string \<Rightarrow> string set" where
  "entry_set m k = (case map_of m k of None \<Rightarrow> {} | Some s \<Rightarrow> set s)"

text \<open>A map covers another when it has every key of it, with at least the same elements.\<close>

definition covers :: "email_map \<Rightarrow> email_map \<Rightarrow> bool" where
  "covers t s = list_all (\<lambda>(a, ns). map_has a t \<and> set ns \<subseteq> entry_set t a) s"

text \<open>
  The entries that \<open>updateResultEmails\<close> reports and the detail it builds for one, the
  addresses that are not noreply, and the relation between the maps collected with the
  exclusion on and those collected with it off.
\<close>

definition reported :: "bool \<Rightarrow> string \<times> string list \<Rightarrow> bool" where
  "reported filterNoreply entry = (\<not> (filterNoreply \<and> isNoreply (classifyEmail (fst entry))))"

definition detailOf :: "recon_state \<Rightarrow> string \<times> string list \<Rightarrow> email_detail" where
  "detailOf st entry =
     \<lparr>detail_email = fst entry,
      detail_names = snd entry,
      detail_classification = classification (classifyEmail (fst entry)),
      detail_domain = domain (classifyEmail (fst entry)),
      detail_is_disposable = isDisposable (classifyEmail (fst entry)),
      detail_sources = setOrEmpty (map_of (emailSources st) (fst entry)),
      detail_repositories = setOrEmpty (map_of (emailsToRepo st) (fst entry))\<rparr>"

definition visible :: "string \<Rightarrow> bool" where
  "visible addr = (\<not> isNoreply (classifyEmail addr))"

definition visible_entries :: "email_map \<Rightarrow> email_map" where
  "visible_entries m = filter (\<lambda>(addr, v). visible addr) m"

definition withheld :: "recon_state \<Rightarrow> recon_state \<Rightarrow> bool" where
  "withheld st_on st_off =
     (emailsToName st_on = visible_entries (emailsToName st_off)
      \<and> emailsToRepo st_on = visible_entries (emailsToRepo st_off)
      \<and> emailSources st_on = visible_entries (emailSources st_off))"


section \<open>Paginated collectors (githubApi.js, getRepositories and getEmails)\<close>

text \<open>
  \<open>ApiUtils.call\<close> is outside the sources; a caller sees either an array of items or an
  error-shaped object with its message, and every error-shaped answer ends the walk with
  what was collected. The transport is a function from the page number to the answer.
  The \<open>while (true)\<close> loop need not end (an upstream that keeps answering full pages of
  fresh items), so it takes a fuel, the largest number of pages it may fetch, and returns
  \<open>None\<close> when the fuel runs out. The pages fetched are logged in order.
\<close>

datatype 'a api_result = JArray "'a list" | JError string

text \<open>The fields of a repository object that the code here and the scorer read.\<close>

record repo =
  name :: string
  fork :: bool
  archived :: bool
  pushed_at :: "int option"
  stargazers_count :: nat
  description :: "string option"
  has_issues :: bool

text \<open>
  The \<open>for\<close> loop over one page; the last component is \<open>continueLoop\<close>. The constructor
  \<open>Repository\<close> of config/settings is a parameter.
\<close>

fun processRepositories ::
  "(string \<Rightarrow> bool \<Rightarrow> 'r) \<Rightarrow> repo list \<Rightarrow> string set \<Rightarrow> 'r list
     \<Rightarrow> string set \<times> 'r list \<times> bool" where
  "processRepositories Repository [] repositoriesSeen repositories =
     (repositoriesSeen, repositories, True)"
| "processRepositories Repository (repository # rest) repositoriesSeen repositories =
     (if name repository \<in> repositoriesSeen then (repositoriesSeen, repositories, False)
      else processRepositories Repository rest
             (insert (name repository) repositoriesSeen)
             (repositories @ [Repository (name repository) (fork repository)]))"

fun getRepositories_loop ::
  "nat \<Rightarrow> (string \<Rightarrow> bool \<Rightarrow> 'r) \<Rightarrow> (nat \<Rightarrow> repo api_result) \<Rightarrow> nat \<Rightarrow> string set \<Rightarrow> 'r list
     \<Rightarrow> nat list \<Rightarrow> ('r list \<times> nat list) option" where
  "getRepositories_loop 0 Repository call pageCounter repositoriesSeen repositories fetched =
     None"
| "getRepositories_loop (Suc fuel) Repository call pageCounter repositoriesSeen repositories
       fetched =
     (case call pageCounter of
        JError message \<Rightarrow> Some (repositories, fetched @ [pageCounter])
      | JArray result \<Rightarrow>
          (case processRepositories Repository result repositoriesSeen repositories of
             (repositoriesSeen', repositories', continueLoop) \<Rightarrow>
               if continueLoop \<and> length result = 100
               then getRepositories_loop fuel Repository call (pageCounter + 1)
                      repositoriesSeen' repositories' (fetched @ [pageCounter])
               else Some (repositories', fetched @ [pageCounter])))"

declare getRepositories_loop.simps [simp del]

definition getRepositories ::
  "nat \<Rightarrow> (string \<Rightarrow> bool \<Rightarrow> 'r) \<Rightarrow> (nat \<Rightarrow> repo api_result) \<Rightarrow> ('r list \<times> nat list) option"
  where
  "getRepositories fuel Repository call = getRepositories_loop fuel Repository call 1 {} [] []"











text \<open>Sample data: repositories named \<open>r\<close>, \<open>rr\<close>, \<open>rrr\<close> and so on, and two commits.\<close>

definition sample_repo :: "nat \<Rightarrow> repo" where
  "sample_repo n =
     \<lparr>name = replicate (Suc n) CHR ''r'', fork = False, archived = False, pushed_at = None,
      stargazers_count = 0, description = None, has_issues = False\<rparr>"

definition sample_page :: "nat \<Rightarrow> nat \<Rightarrow> repo list" where
  "sample_page lo hi = map sample_repo [lo..<hi]"



section \<open>Priority scorer and repository filter (smartScanner.js)\<close>

text \<open>
  A time is a number of milliseconds since the epoch, as the value of a \<open>Date\<close> is;
  \<open>pushed_at\<close> is the parsed time of the last push, \<open>None\<close> when the field is null.
  The clock \<open>new Date()\<close> is the parameter \<open>now\<close>, read once for a whole call. Scores
  are real numbers: the tiers 30, 21 and 9 and the flat bonuses are exact in the
  floating-point arithmetic of the code as well, and the rounding of its sums is
  monotone.
\<close>

record priority_weights =
  recentActivity :: real
  hasDescription :: real
  notFork :: real
  starCount :: real
  commitCount :: real
  hasIssues :: real
  notArchived :: real

definition priorityWeights :: priority_weights where
  "priorityWeights =
     \<lparr>recentActivity = 30, hasDescription = 5, notFork = 20, starCount = 10,
      commitCount = 15, hasIssues = 5, notArchived = 15\<rparr>"

definition monthsAgo :: "int \<Rightarrow> int \<Rightarrow> real" where
  "monthsAgo now pushedDate = real_of_int (now - pushedDate) / (1000 * 60 * 60 * 24 * 30)"

text \<open>A string or null used as a condition: true when present and not empty.\<close>

definition truthy :: "string option \<Rightarrow> bool" where
  "truthy v = (case v of None \<Rightarrow> False | Some s \<Rightarrow> s \<noteq> [])"

definition calculateRepoPriority :: "int \<Rightarrow> 'a repo_scheme \<Rightarrow> real" where
  "calculateRepoPriority now r =
     (let score = 0;
          score =
            (case pushed_at r of
               None \<Rightarrow> score
             | Some pushedDate \<Rightarrow>
                 if monthsAgo now pushedDate < 1
                 then score + recentActivity priorityWeights
                 else if monthsAgo now pushedDate < 6
                 then score + recentActivity priorityWeights * 0.7
                 else if monthsAgo now pushedDate < 12
                 then score + recentActivity priorityWeights * 0.3
                 else score);
          score = (if truthy (description r) then score + hasDescription priorityWeights
                   else score);
          score = (if \<not> fork r then score + notFork priorityWeights else score);
          score =
            (if stargazers_count r > 0
             then score + min (log 10 (real (stargazers_count r + 1)) * 5)
                              (starCount priorityWeights)
             else score);
          score = (if \<not> archived r then score + notArchived priorityWeights else score);
          score = (if has_issues r then score + hasIssues priorityWeights else score)
      in score)"










text \<open>The two parts of the score: what the push time adds, and the rest.\<close>

definition recencyScore :: "int \<Rightarrow> int option \<Rightarrow> real" where
  "recencyScore now pushed =
     (case pushed of
        None \<Rightarrow> 0
      | Some t \<Rightarrow>
          if monthsAgo now t < 1 then 30
          else if monthsAgo now t < 6 then 0.7 * 30
          else if monthsAgo now t < 12 then 0.3 * 30
          else 0)"

definition otherScore :: "'a repo_scheme \<Rightarrow> real" where
  "otherScore r =
     (if truthy (description r) then 5 else 0)
     + (if \<not> fork r then 20 else 0)
     + (if stargazers_count r > 0 then min (log 10 (real (stargazers_count r + 1)) * 5) 10
        else 0)
     + (if \<not> archived r then 15 else 0)
     + (if has_issues r then 5 else 0)"


section \<open>Properties of the budget planner\<close>

lemma math_ceil_div100_div: "math_ceil_div100 n = (n + 99) div 100"
proof -
  have lo: "n \<le> 100 * ((n + 99) div 100)" and hi: "100 * ((n + 99) div 100) < n + 100"
    by arith+
  have "ceiling (real n / 100) = int ((n + 99) div 100)"
  proof (rule ceiling_unique)
    from hi have "real (100 * ((n + 99) div 100)) < real (n + 100)"
      by (simp only: of_nat_less_iff)
    then show "of_int (int ((n + 99) div 100)) - 1 < real n / 100"
      by simp
    from lo have "real n \<le> real (100 * ((n + 99) div 100))"
      by (simp only: of_nat_le_iff)
    then show "real n / 100 \<le> of_int (int ((n + 99) div 100))"
      by simp
  qed
  then show ?thesis
    by (simp add: math_ceil_div100_def)
qed

lemma estimateApiCalls_sum:
  "estimateApiCalls n opts =
     of_bool (fetchProfile opts) + of_bool (fetchOrgs opts) + of_bool (fetchKeys opts)
     + of_bool (fetchGists opts) + math_ceil_div100 n
     + n * math_ceil_div100 (avgCommitsPerRepo opts)"
  by (simp add: estimateApiCalls_def Let_def)

lemma estimateApiCalls_one_pos: "0 < estimateApiCalls 1 opts"
  by (simp add: estimateApiCalls_sum math_ceil_div100_div)

text \<open>
  C5. The estimate is the sum of one call for each of profile, organisations, keys and
  gists that is enabled, the ceiling of \<open>repoCount / 100\<close> for the listing and
  \<open>repoCount\<close> times the ceiling of \<open>avgCommitsPerRepo / 100\<close> for the commits; for 250
  repositories and 50 commits on average it is 256. The strategy can complete exactly
  when the estimate is at most the remaining quota; when it cannot, the recommendations
  are \<open>limit_repos\<close>, \<open>use_token\<close>, \<open>skip_forks\<close> in this order, and the value of the
  first is the floor of \<open>(remaining - 10)\<close> divided by the estimate for one repository,
  which is never zero.
\<close>

theorem C5_budget_planner:
  "estimateApiCalls n opts =
     of_bool (fetchProfile opts) + of_bool (fetchOrgs opts) + of_bool (fetchKeys opts)
     + of_bool (fetchGists opts) + nat (ceiling (real n / 100))
     + n * nat (ceiling (real (avgCommitsPerRepo opts) / 100))
   \<and> estimateApiCalls 250 (default_estimate_options\<lparr>avgCommitsPerRepo := 50\<rparr>) = 256
   \<and> estimatedCalls (generateScanStrategy n remaining opts) = estimateApiCalls n opts
   \<and> (canComplete (generateScanStrategy n remaining opts)
        \<longleftrightarrow> int (estimateApiCalls n opts) \<le> remaining)
   \<and> (canComplete (generateScanStrategy n remaining opts)
        \<longrightarrow> recommendations (generateScanStrategy n remaining opts) = [])
   \<and> (\<not> canComplete (generateScanStrategy n remaining opts)
        \<longrightarrow> map rec_type (recommendations (generateScanStrategy n remaining opts))
              = [''limit_repos'', ''use_token'', ''skip_forks'']
            \<and> map rec_value (recommendations (generateScanStrategy n remaining opts))
              = [Some \<lfloor>(real_of_int remaining - 10) / real (estimateApiCalls 1 opts)\<rfloor>,
                 None, None]
            \<and> 0 < estimateApiCalls 1 opts)"
  (is "?sum \<and> ?ex \<and> ?est \<and> ?can \<and> ?none \<and> ?recs")
proof -
  have s: ?sum
    by (simp only: estimateApiCalls_sum math_ceil_div100_def)
  have e: ?ex
    by (simp add: estimateApiCalls_sum math_ceil_div100_div default_estimate_options_def)
  have "real_of_int remaining - 10 = real_of_int (remaining - 10)"
    by simp
  then have b: "\<lfloor>(real_of_int remaining - 10) / real (estimateApiCalls 1 opts)\<rfloor>
      = (remaining - 10) div int (estimateApiCalls 1 opts)"
    by (metis floor_divide_of_int_eq of_int_of_nat_eq)
  have est: ?est
    by (simp add: generateScanStrategy_def Let_def)
  have can: ?can
    by (simp add: generateScanStrategy_def Let_def)
  have none: ?none
    by (simp add: generateScanStrategy_def Let_def)
  have recs: ?recs
    unfolding b using estimateApiCalls_one_pos [of opts]
    by (simp add: generateScanStrategy_def Let_def)
  from s e est can none recs show ?thesis
    by (intro conjI)
qed

theorem C5_budget_planner_witness:
  "\<not> canComplete (generateScanStrategy 250 100 default_estimate_options)
   \<and> estimatedCalls (generateScanStrategy 250 100 default_estimate_options) = 256
   \<and> map rec_type (recommendations (generateScanStrategy 250 100 default_estimate_options))
       = [''limit_repos'', ''use_token'', ''skip_forks'']
   \<and> map rec_value (recommendations (generateScanStrategy 250 100 default_estimate_options))
       = [Some 18, None, None]
   \<and> canComplete (generateScanStrategy 250 256 default_estimate_options)
   \<and> recommendations (generateScanStrategy 250 256 default_estimate_options) = []"
proof -
  have e: "estimateApiCalls 250 default_estimate_options = 256"
    by (simp add: estimateApiCalls_sum math_ceil_div100_div default_estimate_options_def)
  have e1: "estimateApiCalls 1 default_estimate_options = 5"
    by (simp add: estimateApiCalls_sum math_ceil_div100_div default_estimate_options_def)
  show ?thesis
    using C5_budget_planner [of 250 default_estimate_options 100]
      C5_budget_planner [of 250 default_estimate_options 256] e e1
    by (simp add: default_estimate_options_def)
qed


section \<open>Properties of the email classifier\<close>

lemma split_at_length: "length (split_at s) = Suc (count_list s CHR ''@'')"
  by (induction s) (auto split: list.splits)

lemma split_at_no_separator: "CHR ''@'' \<notin> set s \<Longrightarrow> split_at s = [s]"
  by (induction s) auto

lemma split_at_two:
  "count_list s CHR ''@'' = 1 \<Longrightarrow>
     split_at s = [takeWhile (\<lambda>c. c \<noteq> CHR ''@'') s, tl (dropWhile (\<lambda>c. c \<noteq> CHR ''@'') s)]"
proof (induction s)
  case Nil
  then show ?case by simp
next
  case (Cons c cs)
  show ?case
  proof (cases "c = CHR ''@''")
    case True
    with Cons.prems have "count_list cs CHR ''@'' = 0"
      by simp
    then have "CHR ''@'' \<notin> set cs"
      by (simp add: count_list_0_iff)
    then show ?thesis
      using True by (simp add: split_at_no_separator)
  next
    case False
    with Cons show ?thesis
      by simp
  qed
qed

text \<open>The literal search is the search for a contiguous sublist.\<close>

lemma regex_search_sublist: "regex_search lit s \<longleftrightarrow> sublist lit s"
  by (induction s) (auto simp: sublist_Cons_right)

text \<open>
  C7. A string without exactly one \<open>@\<close> is invalid. A string with exactly one is valid,
  its domain is the lower-cased text after the \<open>@\<close>, and its classification is decided
  in this order: a noreply pattern matches, the domain is a disposable one, the domain
  is a personal webmail one, otherwise work. The four addresses of the specification
  are classified as it says.
\<close>

theorem C7_classify_precedence:
  "(count_list addr CHR ''@'' \<noteq> 1 \<longrightarrow> \<not> isValid (classifyEmail addr))
   \<and> (count_list addr CHR ''@'' = 1 \<longrightarrow>
        isValid (classifyEmail addr)
        \<and> domain (classifyEmail addr)
            = Some (toLowerCase (tl (dropWhile (\<lambda>c. c \<noteq> CHR ''@'') addr)))
        \<and> isNoreply (classifyEmail addr) = (\<exists>p \<in> set noreply_patterns. regex_test p addr)
        \<and> classification (classifyEmail addr)
            = (if \<exists>p \<in> set noreply_patterns. regex_test p addr then ''noreply''
               else if toLowerCase (tl (dropWhile (\<lambda>c. c \<noteq> CHR ''@'') addr))
                         \<in> set disposable_domains then ''disposable''
               else if toLowerCase (tl (dropWhile (\<lambda>c. c \<noteq> CHR ''@'') addr))
                         \<in> set commonPersonalDomains then ''personal''
               else ''work''))
   \<and> classification (classifyEmail ''noreply@domain.com'') = ''noreply''
   \<and> classification (classifyEmail ''user@mailinator.com'') = ''disposable''
   \<and> classification (classifyEmail ''user@gmail.com'') = ''personal''
   \<and> classification (classifyEmail ''user@acme-corp.io'') = ''work''"
  (is "?invalid \<and> ?valid \<and> ?e1 \<and> ?e2 \<and> ?e3 \<and> ?e4")
proof -
  have inv: ?invalid
    by (simp add: classifyEmail_def Let_def split_at_length)
  have val: ?valid
  proof
    assume one: "count_list addr CHR ''@'' = 1"
    then have len: "length (split_at addr) = 2"
      by (simp add: split_at_length)
    have snd: "split_at addr ! 1 = tl (dropWhile (\<lambda>c. c \<noteq> CHR ''@'') addr)"
      by (simp add: split_at_two [OF one])
    show "isValid (classifyEmail addr)
        \<and> domain (classifyEmail addr)
            = Some (toLowerCase (tl (dropWhile (\<lambda>c. c \<noteq> CHR ''@'') addr)))
        \<and> isNoreply (classifyEmail addr) = (\<exists>p \<in> set noreply_patterns. regex_test p addr)
        \<and> classification (classifyEmail addr)
            = (if \<exists>p \<in> set noreply_patterns. regex_test p addr then ''noreply''
               else if toLowerCase (tl (dropWhile (\<lambda>c. c \<noteq> CHR ''@'') addr))
                         \<in> set disposable_domains then ''disposable''
               else if toLowerCase (tl (dropWhile (\<lambda>c. c \<noteq> CHR ''@'') addr))
                         \<in> set commonPersonalDomains then ''personal''
               else ''work'')"
      unfolding classifyEmail_def Let_def list_ex_iff snd
      by (simp add: len)
  qed
  have e1: ?e1
    by (simp add: classifyEmail_def Let_def noreply_patterns_def toLowerCase_def
        toLowerChar_def latin1_capitals_def latin1_smalls_def)
  have e2: ?e2
    by (simp add: classifyEmail_def Let_def noreply_patterns_def toLowerCase_def
        toLowerChar_def latin1_capitals_def latin1_smalls_def regex_anchored_suffix_def disposable_domains_def)
  have e3: ?e3
    by (simp add: classifyEmail_def Let_def noreply_patterns_def toLowerCase_def
        toLowerChar_def latin1_capitals_def latin1_smalls_def regex_anchored_suffix_def disposable_domains_def
        commonPersonalDomains_def)
  have e4: ?e4
    by (simp add: classifyEmail_def Let_def noreply_patterns_def toLowerCase_def
        toLowerChar_def latin1_capitals_def latin1_smalls_def regex_anchored_suffix_def disposable_domains_def
        commonPersonalDomains_def)
  from inv val e1 e2 e3 e4 show ?thesis
    by (intro conjI)
qed
theorem C7_classify_precedence_witness:
  "count_list ''a@b@c'' CHR ''@'' \<noteq> 1
   \<and> \<not> isValid (classifyEmail ''a@b@c'')
   \<and> count_list ''User@GMail.com'' CHR ''@'' = 1
   \<and> isValid (classifyEmail ''User@GMail.com'')
   \<and> domain (classifyEmail ''User@GMail.com'') = Some ''gmail.com''
   \<and> classification (classifyEmail ''User@GMail.com'') = ''personal''
   \<and> count_list ''NoReply@Mailinator.com'' CHR ''@'' = 1
   \<and> classification (classifyEmail ''NoReply@Mailinator.com'') = ''noreply''
   \<and> count_list (''a@'' @ [CHR 0xC9] @ ''COLE.fr'') CHR ''@'' = 1
   \<and> domain (classifyEmail (''a@'' @ [CHR 0xC9] @ ''COLE.fr''))
       = Some ([CHR 0xE9] @ ''cole.fr'')"
proof -
  have c1: "count_list ''a@b@c'' CHR ''@'' \<noteq> 1"
    by simp
  have c2: "count_list ''User@GMail.com'' CHR ''@'' = 1"
    by simp
  have c3: "count_list ''NoReply@Mailinator.com'' CHR ''@'' = 1"
    by simp
  note inv = C7_classify_precedence [of "''a@b@c''", THEN conjunct1, rule_format, OF c1]
  note val2 = C7_classify_precedence [of "''User@GMail.com''", THEN conjunct2,
      THEN conjunct1, rule_format, OF c2]
  note val3 = C7_classify_precedence [of "''NoReply@Mailinator.com''", THEN conjunct2,
      THEN conjunct1, rule_format, OF c3]
  have d2: "toLowerCase (tl (dropWhile (\<lambda>c. c \<noteq> CHR ''@'') ''User@GMail.com''))
      = ''gmail.com''"
    by (simp add: toLowerCase_def toLowerChar_def latin1_capitals_def latin1_smalls_def)
  have n2: "\<not> (\<exists>p \<in> set noreply_patterns. regex_test p ''User@GMail.com'')"
    by (simp add: noreply_patterns_def toLowerCase_def toLowerChar_def latin1_capitals_def latin1_smalls_def
        regex_anchored_suffix_def)
  have n3: "\<exists>p \<in> set noreply_patterns. regex_test p ''NoReply@Mailinator.com''"
    by (simp add: noreply_patterns_def toLowerCase_def toLowerChar_def latin1_capitals_def latin1_smalls_def)
  from val2 have v2: "isValid (classifyEmail ''User@GMail.com'')
      \<and> domain (classifyEmail ''User@GMail.com'') = Some ''gmail.com''
      \<and> classification (classifyEmail ''User@GMail.com'') = ''personal''"
    unfolding d2 using n2
    by (simp add: disposable_domains_def commonPersonalDomains_def)
  from val3 n3 have v3: "classification (classifyEmail ''NoReply@Mailinator.com'') = ''noreply''"
    by simp
  have c4: "count_list (''a@'' @ [CHR 0xC9] @ ''COLE.fr'') CHR ''@'' = 1"
    by simp
  note val4 = C7_classify_precedence [of "''a@'' @ [CHR 0xC9] @ ''COLE.fr''", THEN conjunct2,
      THEN conjunct1, rule_format, OF c4]
  have d4: "toLowerCase (tl (dropWhile (\<lambda>c. c \<noteq> CHR ''@'') (''a@'' @ [CHR 0xC9] @ ''COLE.fr'')))
      = [CHR 0xE9] @ ''cole.fr''"
    by (simp add: toLowerCase_def toLowerChar_def latin1_capitals_def latin1_smalls_def)
  from val4 have v4: "domain (classifyEmail (''a@'' @ [CHR 0xC9] @ ''COLE.fr''))
       = Some ([CHR 0xE9] @ ''cole.fr'')"
    unfolding d4 by (rule conjunct2 [THEN conjunct1])
  from c1 inv c2 v2 c3 v3 c4 v4 show ?thesis
    by (simp only: simp_thms)
qed


section \<open>Properties of the identity aggregation\<close>

lemma set_add_member: "x \<in> set s \<Longrightarrow> set_add x s = s"
  by (simp add: set_add_def)

lemma set_set_add: "set (set_add x s) = insert x (set s)"
  by (auto simp: set_add_def)

lemma fold_set_add_subset: "set xs \<subseteq> set s \<Longrightarrow> fold set_add xs s = s"
  by (induction xs) (simp_all add: set_add_member)

lemma set_fold_set_add: "set (fold set_add xs s) = set s \<union> set xs"
  by (induction xs arbitrary: s) (auto simp: set_set_add)

lemma map_entry_fixed:
  "map_of m k = Some v \<Longrightarrow> f v = v \<Longrightarrow> AList.map_entry k f m = m"
  by (induction m) (auto split: if_splits)

lemma map_has_ensure_set: "map_has k (ensure_set k m)"
  by (simp add: ensure_set_def map_has_def update_conv')

lemma ensure_set_present: "map_has k m \<Longrightarrow> ensure_set k m = m"
  by (simp add: ensure_set_def)

lemma map_of_ensure_set:
  "map_of (ensure_set k m) k' =
     (if k' = k then Some (case map_of m k of None \<Rightarrow> [] | Some s \<Rightarrow> s) else map_of m k')"
  by (auto simp: ensure_set_def map_has_def update_conv')

lemma map_of_add_to:
  "map_of (add_to k x m) k' =
     (if k' = k then map_option (set_add x) (map_of m k) else map_of m k')"
  by (auto simp: add_to_def map_of_map_entry split: option.splits)

lemma map_of_fold_add_to:
  "map_of (fold (add_to k) xs m) k' =
     (if k' = k then map_option (fold set_add xs) (map_of m k) else map_of m k')"
proof (induction xs arbitrary: m)
  case Nil
  show ?case
    by (simp add: option.map_ident)
next
  case (Cons x xs)
  show ?case
    by (simp add: Cons.IH map_of_add_to option.map_comp comp_def)
qed

lemma add_to_fixed: "map_of m k = Some s \<Longrightarrow> x \<in> set s \<Longrightarrow> add_to k x m = m"
  by (simp add: add_to_def map_entry_fixed [where v = s] set_add_member)

lemma fold_add_to_fixed:
  "map_of m k = Some s \<Longrightarrow> set xs \<subseteq> set s \<Longrightarrow> fold (add_to k) xs m = m"
  by (induction xs) (simp_all add: add_to_fixed)

text \<open>Merging the names of one email: what the map holds afterwards, and idempotence.\<close>

lemma merge_names_lookup:
  "map_of (fold (add_to k) xs (ensure_set k m)) k
     = Some (fold set_add xs (case map_of m k of None \<Rightarrow> [] | Some s \<Rightarrow> s))"
  by (simp add: map_of_fold_add_to map_of_ensure_set)

lemma merge_names_other:
  "k' \<noteq> k \<Longrightarrow> map_of (fold (add_to k) xs (ensure_set k m)) k' = map_of m k'"
  by (simp add: map_of_fold_add_to map_of_ensure_set)

lemma merge_names_has: "map_has k (fold (add_to k) xs (ensure_set k m))"
  by (simp add: map_has_def merge_names_lookup)

lemma merge_names_entry_set:
  "entry_set (fold (add_to k) xs (ensure_set k m)) k' =
     (if k' = k then entry_set m k \<union> set xs else entry_set m k')"
  by (auto simp: entry_set_def merge_names_lookup merge_names_other set_fold_set_add
      split: option.splits)

lemma merge_names_absorbed:
  assumes "map_of m k = Some s" and "set xs \<subseteq> set s"
  shows "fold (add_to k) xs (ensure_set k m) = m"
proof -
  from assms(1) have "map_has k m"
    by (simp add: map_has_def)
  then have "ensure_set k m = m"
    by (rule ensure_set_present)
  with assms show ?thesis
    by (simp add: fold_add_to_fixed)
qed

lemma merge_names_idem:
  "fold (add_to k) xs (ensure_set k (fold (add_to k) xs (ensure_set k m)))
     = fold (add_to k) xs (ensure_set k m)"
proof (rule merge_names_absorbed)
  show "map_of (fold (add_to k) xs (ensure_set k m)) k
     = Some (fold set_add xs (case map_of m k of None \<Rightarrow> [] | Some s \<Rightarrow> s))"
    by (rule merge_names_lookup)
  show "set xs \<subseteq> set (fold set_add xs (case map_of m k of None \<Rightarrow> [] | Some s \<Rightarrow> s))"
    by (simp add: set_fold_set_add)
qed

lemma merge_one_idem:
  "add_to k x (ensure_set k (add_to k x (ensure_set k m))) = add_to k x (ensure_set k m)"
  using merge_names_idem [of k "[x]" m] by simp

lemma merge_one_entry_set:
  "entry_set (add_to k x (ensure_set k m)) k' =
     (if k' = k then insert x (entry_set m k) else entry_set m k')"
  using merge_names_entry_set [of k "[x]" m k'] by simp



lemma merge_names_has_mono:
  "map_has a m \<Longrightarrow> map_has a (fold (add_to k) xs (ensure_set k m))"
proof (cases "a = k")
  case True
  then show ?thesis
    by (simp add: merge_names_has)
next
  case False
  assume "map_has a m"
  with False show ?thesis
    by (simp add: map_has_def merge_names_other)
qed

lemma merge_names_entry_set_mono:
  "entry_set m a \<subseteq> entry_set (fold (add_to k) xs (ensure_set k m)) a"
  by (simp add: merge_names_entry_set)

lemma map_has_entry:
  "map_has k m \<Longrightarrow> X \<subseteq> entry_set m k \<Longrightarrow> \<exists>s. map_of m k = Some s \<and> X \<subseteq> set s"
  by (auto simp: map_has_def entry_set_def)


lemma covers_step:
  "covers t s \<Longrightarrow> covers (fold (add_to k) xs (ensure_set k t)) s"
  unfolding covers_def list_all_iff
  using merge_names_entry_set_mono [of t _ k xs] merge_names_has_mono [of _ t k xs]
  by fast

lemma covers_fold:
  "covers t s \<Longrightarrow>
     covers (fold (\<lambda>(addr, names) t. fold (add_to addr) names (ensure_set addr t)) s' t) s"
  by (induction s' arbitrary: t) (auto simp: covers_step)

lemma mergeEmailMaps_covers: "covers (mergeEmailMaps t s) s"
  unfolding mergeEmailMaps_def
proof (induction s arbitrary: t)
  case Nil
  show ?case by (simp add: covers_def)
next
  case (Cons e s)
  obtain a ns where e: "e = (a, ns)"
    by (cases e)
  let ?step = "\<lambda>(addr, names) t. fold (add_to addr) names (ensure_set addr t)"
  have "covers (fold (add_to a) ns (ensure_set a t)) [e]"
    by (simp add: covers_def e merge_names_has merge_names_entry_set)
  then have "covers (fold ?step s (fold (add_to a) ns (ensure_set a t))) [e]"
    by (rule covers_fold)
  moreover have "covers (fold ?step s (fold (add_to a) ns (ensure_set a t))) s"
    by (rule Cons.IH)
  ultimately show ?case
    by (simp add: covers_def e)
qed

lemma mergeEmailMaps_absorbed: "covers t s \<Longrightarrow> mergeEmailMaps t s = t"
  unfolding mergeEmailMaps_def
proof (induction s)
  case Nil
  show ?case by simp
next
  case (Cons e s)
  obtain a ns where e: "e = (a, ns)"
    by (cases e)
  from Cons.prems have "map_has a t" and "set ns \<subseteq> entry_set t a" and rest: "covers t s"
    by (simp_all add: covers_def e)
  then obtain v where "map_of t a = Some v" and "set ns \<subseteq> set v"
    using map_has_entry by blast
  then have "fold (add_to a) ns (ensure_set a t) = t"
    by (rule merge_names_absorbed)
  with Cons.IH [OF rest] show ?case
    by (simp add: e)
qed

lemma mergeEmailMaps_idem:
  "mergeEmailMaps (mergeEmailMaps t s) s = mergeEmailMaps t s"
  by (rule mergeEmailMaps_absorbed) (rule mergeEmailMaps_covers)

lemma recordCommitEmail_idem:
  "recordCommitEmail f repo (addr, names) (recordCommitEmail f repo (addr, names) (st, n))
     = recordCommitEmail f repo (addr, names) (st, n)"
  by (simp add: recordCommitEmail_def Let_def merge_names_idem merge_one_idem merge_names_has)

lemma recordCommitEmail_sets:
  assumes "\<not> (f \<and> isNoreply (classifyEmail addr))"
    and "st' = fst (recordCommitEmail f repo (addr, names) (st, n))"
  shows "entry_set (emailsToName st') k
           = (if k = addr then entry_set (emailsToName st) addr \<union> set names
              else entry_set (emailsToName st) k)"
    and "entry_set (emailsToRepo st') k
           = (if k = addr then insert repo (entry_set (emailsToRepo st) addr)
              else entry_set (emailsToRepo st) k)"
    and "entry_set (emailSources st') k
           = (if k = addr then insert ''commit'' (entry_set (emailSources st) addr)
              else entry_set (emailSources st) k)"
  unfolding assms(2) using assms(1)
  by (auto simp: recordCommitEmail_def Let_def merge_names_entry_set merge_one_entry_set)

lemma recordCommitEmail_has:
  assumes "\<not> (f \<and> isNoreply (classifyEmail addr))"
    and "st' = fst (recordCommitEmail f repo (addr, names) (st, n))"
  shows "map_has addr (emailsToName st')"
    and "map_has addr (emailsToRepo st')"
    and "map_has addr (emailSources st')"
  unfolding assms(2) using assms(1)
  by (auto simp: recordCommitEmail_def Let_def merge_names_has
      merge_names_has [of _ "[x]" for x, simplified])

text \<open>
  C9. Folding the same observation (an email with its names, for a repository, with the
  source tag \<open>commit\<close>) a second time changes nothing: not the maps, not the counter of
  new emails. After an observation that is not skipped, the email has an entry in each
  map, created when it was absent, whose elements are the previous ones together with
  the observed names, the repository and the tag. Merging a whole map of names twice
  with \<open>mergeEmailMaps\<close> gives the same map as merging it once.
\<close>

theorem C9_merge_idempotent:
  "recordCommitEmail f repo (addr, names) (recordCommitEmail f repo (addr, names) (st, n))
     = recordCommitEmail f repo (addr, names) (st, n)
   \<and> (\<not> (f \<and> isNoreply (classifyEmail addr)) \<longrightarrow>
        map_has addr (emailsToName (fst (recordCommitEmail f repo (addr, names) (st, n))))
      \<and> entry_set (emailsToName (fst (recordCommitEmail f repo (addr, names) (st, n)))) addr
          = entry_set (emailsToName st) addr \<union> set names
      \<and> entry_set (emailsToRepo (fst (recordCommitEmail f repo (addr, names) (st, n)))) addr
          = insert repo (entry_set (emailsToRepo st) addr)
      \<and> entry_set (emailSources (fst (recordCommitEmail f repo (addr, names) (st, n)))) addr
          = insert ''commit'' (entry_set (emailSources st) addr))
   \<and> mergeEmailMaps (mergeEmailMaps target source) source = mergeEmailMaps target source"
  using recordCommitEmail_idem [of f repo addr names st n]
    recordCommitEmail_sets [where f = f and addr = addr and repo = repo and names = names
      and st = st and n = n and k = addr, OF _ refl]
    recordCommitEmail_has(1) [where f = f and addr = addr and repo = repo and names = names
      and st = st and n = n, OF _ refl]
    mergeEmailMaps_idem [of target source]
  by simp

theorem C9_merge_idempotent_witness:
  "\<not> (True \<and> isNoreply (classifyEmail ''dev@example.org''))
   \<and> fst (recordCommitEmail True ''site'' (''dev@example.org'', [''Dev''])
        (recordCommitEmail True ''site'' (''dev@example.org'', [''Dev''])
          (initial_recon_state, 0)))
     = initial_recon_state
         \<lparr>emailsToName := [(''dev@example.org'', [''Dev''])],
          emailsToRepo := [(''dev@example.org'', [''site''])],
          emailSources := [(''dev@example.org'', [''commit''])]\<rparr>
   \<and> entry_set (emailsToName (fst (recordCommitEmail True ''site''
        (''dev@example.org'', [''Dev'']) (initial_recon_state, 0)))) ''dev@example.org''
     = {''Dev''}"
proof -
  have n: "\<not> (True \<and> isNoreply (classifyEmail ''dev@example.org''))"
    by (simp add: classifyEmail_def Let_def noreply_patterns_def toLowerCase_def
        toLowerChar_def latin1_capitals_def latin1_smalls_def regex_anchored_suffix_def)
  have once: "fst (recordCommitEmail True ''site'' (''dev@example.org'', [''Dev''])
                (initial_recon_state, 0))
     = initial_recon_state
         \<lparr>emailsToName := [(''dev@example.org'', [''Dev''])],
          emailsToRepo := [(''dev@example.org'', [''site''])],
          emailSources := [(''dev@example.org'', [''commit''])]\<rparr>"
    using n
    by (simp add: recordCommitEmail_def Let_def initial_recon_state_def ensure_set_def
        map_has_def add_to_def set_add_def)
  note c9 = C9_merge_idempotent [of True "''site''" "''dev@example.org''" "[''Dev'']"
      initial_recon_state 0]
  from c9 have twice: "recordCommitEmail True ''site'' (''dev@example.org'', [''Dev''])
        (recordCommitEmail True ''site'' (''dev@example.org'', [''Dev''])
          (initial_recon_state, 0))
      = recordCommitEmail True ''site'' (''dev@example.org'', [''Dev''])
          (initial_recon_state, 0)"
    by (rule conjunct1)
  from c9 n have "entry_set (emailsToName (fst (recordCommitEmail True ''site''
        (''dev@example.org'', [''Dev'']) (initial_recon_state, 0)))) ''dev@example.org''
     = entry_set (emailsToName initial_recon_state) ''dev@example.org'' \<union> set [''Dev'']"
    by blast
  then have sets: "entry_set (emailsToName (fst (recordCommitEmail True ''site''
        (''dev@example.org'', [''Dev'']) (initial_recon_state, 0)))) ''dev@example.org''
     = {''Dev''}"
    by (simp add: entry_set_def initial_recon_state_def)
  from n once twice sets show ?thesis
    by (simp only: simp_thms)
qed

lemma updateResultEmails_frame:
  "emailsToName (updateResultEmails f st) = emailsToName st"
  "emailsToRepo (updateResultEmails f st) = emailsToRepo st"
  "emailSources (updateResultEmails f st) = emailSources st"
  by (simp_all add: updateResultEmails_def split: prod.splits)

lemma recordCommitEmail_skip:
  "recordCommitEmail True repo (addr, names) acc =
     (if visible addr then recordCommitEmail False repo (addr, names) acc else acc)"
  by (cases acc) (simp add: recordCommitEmail_def visible_def)

lemma visible_entries_update:
  "visible_entries (AList.update k v m) =
     (if visible k then AList.update k v (visible_entries m) else visible_entries m)"
  by (induction m) (auto simp: visible_entries_def)

lemma visible_entries_map_entry:
  "visible_entries (AList.map_entry k f m) =
     (if visible k then AList.map_entry k f (visible_entries m) else visible_entries m)"
  by (induction m) (auto simp: visible_entries_def)

lemma map_of_visible_entries:
  "map_of (visible_entries m) k = (if visible k then map_of m k else None)"
  by (induction m) (auto simp: visible_entries_def)

lemma visible_entries_ensure_set:
  "visible_entries (ensure_set k m) =
     (if visible k then ensure_set k (visible_entries m) else visible_entries m)"
  by (simp add: ensure_set_def map_has_def visible_entries_update map_of_visible_entries)

lemma visible_entries_add_to:
  "visible_entries (add_to k x m) =
     (if visible k then add_to k x (visible_entries m) else visible_entries m)"
  by (simp add: add_to_def visible_entries_map_entry)

lemma visible_entries_fold_add_to:
  "visible_entries (fold (add_to k) xs m) =
     (if visible k then fold (add_to k) xs (visible_entries m) else visible_entries m)"
  by (induction xs arbitrary: m) (simp_all add: visible_entries_add_to)

lemma withheld_step:
  assumes "withheld st_on st_off"
  shows "withheld (fst (recordCommitEmail True repo e (st_on, n)))
           (fst (recordCommitEmail False repo e (st_off, n')))"
proof -
  obtain addr names where e: "e = (addr, names)"
    by (cases e)
  show ?thesis
    unfolding e recordCommitEmail_skip using assms
    by (cases "visible addr")
      (simp_all add: recordCommitEmail_def Let_def withheld_def
        visible_entries_fold_add_to visible_entries_add_to visible_entries_ensure_set)
qed

lemma withheld_fold:
  assumes "withheld st_on st_off"
  shows "withheld (fst (fold (recordCommitEmail True repo) es (st_on, n)))
           (fst (fold (recordCommitEmail False repo) es (st_off, n')))"
  using assms
proof (induction es arbitrary: st_on st_off n n')
  case Nil
  then show ?case by simp
next
  case (Cons e es)
  obtain s1 n1 where a: "recordCommitEmail True repo e (st_on, n) = (s1, n1)"
    by (cases "recordCommitEmail True repo e (st_on, n)")
  obtain s2 n2 where b: "recordCommitEmail False repo e (st_off, n') = (s2, n2)"
    by (cases "recordCommitEmail False repo e (st_off, n')")
  from withheld_step [OF Cons.prems, of repo e n n'] a b have "withheld s1 s2"
    by simp
  then show ?case
    by (simp add: a b Cons.IH)
qed

lemma withheld_update:
  "withheld st_on st_off \<Longrightarrow> withheld (updateResultEmails f st_on) (updateResultEmails g st_off)"
  by (simp add: withheld_def updateResultEmails_frame)

lemma withheld_scanRepository:
  assumes "withheld st_on st_off"
  shows "withheld (scanRepository True scan st_on) (scanRepository False scan st_off)"
proof -
  obtain repo es where scan: "scan = (repo, es)"
    by (cases scan)
  obtain s1 n1 where a: "fold (recordCommitEmail True repo) es (st_on, 0) = (s1, n1)"
    by (cases "fold (recordCommitEmail True repo) es (st_on, 0)")
  obtain s2 n2 where b: "fold (recordCommitEmail False repo) es (st_off, 0) = (s2, n2)"
    by (cases "fold (recordCommitEmail False repo) es (st_off, 0)")
  from withheld_fold [OF assms, of repo es 0 0] a b have w: "withheld s1 s2"
    by simp
  then have "withheld (updateResultEmails True s1) s2"
    and "withheld s1 (updateResultEmails False s2)"
    and "withheld (updateResultEmails True s1) (updateResultEmails False s2)"
    by (simp_all add: withheld_def updateResultEmails_frame)
  with w show ?thesis
    by (simp add: scanRepository_def scan a b)
qed

lemma withheld_scans:
  "withheld st_on st_off \<Longrightarrow>
     withheld (fold (scanRepository True) scans st_on) (fold (scanRepository False) scans st_off)"
  by (induction scans arbitrary: st_on st_off) (simp_all add: withheld_scanRepository)

lemma withheld_collectEmails: "withheld (collectEmails True scans) (collectEmails False scans)"
  unfolding collectEmails_def
  by (intro withheld_update withheld_scans) (simp add: withheld_def visible_entries_def initial_recon_state_def)

lemma reportEntry_step:
  "reportEntry st f e (xs, ds) =
     (if reported f e then (xs @ [fst e], ds @ [detailOf st e]) else (xs, ds))"
  by (cases e) (simp add: reportEntry_def Let_def reported_def detailOf_def)

lemma fold_reportEntry:
  "fold (reportEntry st f) es (xs, ds) =
     (xs @ map fst (filter (reported f) es), ds @ map (detailOf st) (filter (reported f) es))"
proof (induction es arbitrary: xs ds)
  case Nil
  show ?case by simp
next
  case (Cons e es)
  have "fold (reportEntry st f) (e # es) (xs, ds)
      = fold (reportEntry st f) es (reportEntry st f e (xs, ds))"
    by simp
  also have "\<dots> = (xs @ map fst (filter (reported f) (e # es)),
                    ds @ map (detailOf st) (filter (reported f) (e # es)))"
    by (simp add: reportEntry_step Cons.IH)
  finally show ?case .
qed

lemma updateResultEmails_report:
  "leaked_emails (updateResultEmails f st) = map fst (filter (reported f) (emailsToName st))"
  "email_details (updateResultEmails f st)
     = map (detailOf st) (filter (reported f) (emailsToName st))"
  by (simp_all add: updateResultEmails_def fold_reportEntry)

lemma reported_visible_entries: "filter (reported True) m = visible_entries m"
  by (induction m) (auto simp: visible_entries_def reported_def visible_def)

lemma visible_entries_idem: "visible_entries (visible_entries m) = visible_entries m"
  by (simp add: visible_entries_def)

lemma detailOf_withheld:
  assumes "withheld st_on st_off" and "visible (fst entry)"
  shows "detailOf st_on entry = detailOf st_off entry"
  using assms by (simp add: detailOf_def withheld_def map_of_visible_entries)

lemma visible_entries_visible: "entry \<in> set (visible_entries m) \<Longrightarrow> visible (fst entry)"
  by (auto simp: visible_entries_def)

lemma withheld_report:
  assumes "withheld st_on st_off"
  shows "leaked_emails (updateResultEmails True st_on)
           = leaked_emails (updateResultEmails True st_off)"
    and "email_details (updateResultEmails True st_on)
           = email_details (updateResultEmails True st_off)"
proof -
  from assms have n: "emailsToName st_on = visible_entries (emailsToName st_off)"
    by (simp add: withheld_def)
  show "leaked_emails (updateResultEmails True st_on)
           = leaked_emails (updateResultEmails True st_off)"
    by (simp add: updateResultEmails_report reported_visible_entries n visible_entries_idem)
  have "map (detailOf st_on) (visible_entries (emailsToName st_off))
      = map (detailOf st_off) (visible_entries (emailsToName st_off))"
    by (rule map_cong [OF refl])
      (rule detailOf_withheld [OF assms], rule visible_entries_visible)
  then show "email_details (updateResultEmails True st_on)
           = email_details (updateResultEmails True st_off)"
    by (simp add: updateResultEmails_report reported_visible_entries n visible_entries_idem)
qed

lemma updateResultEmails_twice:
  "leaked_emails (updateResultEmails f (updateResultEmails g st))
     = leaked_emails (updateResultEmails f st)"
  "email_details (updateResultEmails f (updateResultEmails g st))
     = email_details (updateResultEmails f st)"
  by (simp_all add: updateResultEmails_report updateResultEmails_frame detailOf_def)

text \<open>With the flag off every observed email gets a key.\<close>

lemma keys_ensure_set: "fst ` set (ensure_set k m) = insert k (fst ` set m)"
  by (auto simp: ensure_set_def map_has_def dom_update map_of_eq_None_iff)

lemma keys_fold_add_to: "fst ` set (fold (add_to k) xs m) = fst ` set m"
  by (induction xs arbitrary: m) (simp_all add: add_to_def dom_map_entry)

lemma keys_recordCommitEmail:
  "fst ` set (emailsToName (fst (recordCommitEmail False repo e (st, n))))
     = insert (fst e) (fst ` set (emailsToName st))"
  by (cases e) (simp add: recordCommitEmail_def Let_def keys_fold_add_to keys_ensure_set)

lemma keys_fold_recordCommitEmail:
  "fst ` set (emailsToName (fst (fold (recordCommitEmail False repo) es (st, n))))
     = fst ` set (emailsToName st) \<union> fst ` set es"
proof (induction es arbitrary: st n)
  case Nil
  show ?case by simp
next
  case (Cons e es)
  obtain s1 n1 where a: "recordCommitEmail False repo e (st, n) = (s1, n1)"
    by (cases "recordCommitEmail False repo e (st, n)")
  from keys_recordCommitEmail [of repo e st n] a
  have "fst ` set (emailsToName s1) = insert (fst e) (fst ` set (emailsToName st))"
    by simp
  then show ?case
    by (simp add: a Cons.IH)
qed

lemma keys_scanRepository:
  "fst ` set (emailsToName (scanRepository False scan st))
     = fst ` set (emailsToName st) \<union> fst ` set (snd scan)"
proof -
  obtain repo es where scan: "scan = (repo, es)"
    by (cases scan)
  obtain s1 n1 where a: "fold (recordCommitEmail False repo) es (st, 0) = (s1, n1)"
    by (cases "fold (recordCommitEmail False repo) es (st, 0)")
  from keys_fold_recordCommitEmail [of repo es st 0] a
  have "fst ` set (emailsToName s1) = fst ` set (emailsToName st) \<union> fst ` set es"
    by simp
  then show ?thesis
    by (simp add: scanRepository_def scan a updateResultEmails_frame)
qed

lemma keys_scans:
  "fst ` set (emailsToName (fold (scanRepository False) scans st))
     = fst ` set (emailsToName st) \<union> (\<Union>scan \<in> set scans. fst ` set (snd scan))"
  by (induction scans arbitrary: st) (auto simp: keys_scanRepository)

lemma keys_collectEmails:
  "fst ` set (emailsToName (collectEmails False scans))
     = (\<Union>scan \<in> set scans. fst ` set (snd scan))"
  by (simp add: collectEmails_def updateResultEmails_frame keys_scans initial_recon_state_def)

text \<open>What \<open>deduplicateEmails\<close> keeps is valid and not noreply.\<close>

lemma enrichEntry_skip:
  "\<not> isValid (classifyEmail addr) \<or> isNoreply (classifyEmail addr) \<Longrightarrow>
     enrichEntry (addr, names) acc = acc"
  by (simp add: enrichEntry_def Let_def)

lemma enrichEntry_keep:
  "\<not> (\<not> isValid (classifyEmail addr) \<or> isNoreply (classifyEmail addr)) \<Longrightarrow>
     fst ` set (enrichEntry (addr, names) acc) = {addr} \<union> fst ` set acc"
  by (simp add: enrichEntry_def Let_def dom_update)

lemma keys_enrichEntry:
  "fst ` set (enrichEntry e acc)
     \<subseteq> fst ` set acc \<union> {a. isValid (classifyEmail a) \<and> \<not> isNoreply (classifyEmail a)}"
proof (cases e)
  case (Pair addr names)
  show ?thesis
  proof (cases "\<not> isValid (classifyEmail addr) \<or> isNoreply (classifyEmail addr)")
    case True
    then have "enrichEntry e acc = acc"
      unfolding Pair by (rule enrichEntry_skip)
    then show ?thesis
      by (simp only: Un_upper1)
  next
    case False
    then have "fst ` set (enrichEntry e acc) = {addr} \<union> fst ` set acc"
      unfolding Pair by (rule enrichEntry_keep)
    with False show ?thesis
      by simp
  qed
qed

lemma keys_fold_enrichEntry:
  "fst ` set (fold enrichEntry m acc)
     \<subseteq> fst ` set acc \<union> {a. isValid (classifyEmail a) \<and> \<not> isNoreply (classifyEmail a)}"
proof (induction m arbitrary: acc)
  case Nil
  show ?case by simp
next
  case (Cons e m)
  have "fst ` set (fold enrichEntry (e # m) acc) = fst ` set (fold enrichEntry m (enrichEntry e acc))"
    by simp
  also have "\<dots> \<subseteq> fst ` set (enrichEntry e acc)
      \<union> {a. isValid (classifyEmail a) \<and> \<not> isNoreply (classifyEmail a)}"
    by (rule Cons.IH)
  also have "\<dots> \<subseteq> fst ` set acc
      \<union> {a. isValid (classifyEmail a) \<and> \<not> isNoreply (classifyEmail a)}"
    using keys_enrichEntry [of e acc] by (simp add: le_supI1)
  finally show ?case .
qed

lemma deduplicateEmails_valid:
  "addr \<in> fst ` set (deduplicateEmails m) \<Longrightarrow>
     isValid (classifyEmail addr) \<and> \<not> isNoreply (classifyEmail addr)"
  using keys_fold_enrichEntry [of m "[]"] unfolding deduplicateEmails_def by auto

text \<open>
  C1. The claim is that an address without exactly one \<open>@\<close> never enters the identity
  map or the reported list. \<open>deduplicateEmails\<close> drops such addresses (lemma
  \<open>deduplicateEmails_valid\<close>), but the path that \<open>runGithubRecon\<close> uses does not: the
  address \<open>john.doe\<close> is invalid, and after one repository whose commits carry it, it
  is a key of \<open>emailsToName\<close> and an element of \<open>leaked_emails\<close>, classified
  \<open>personal\<close>, whatever the noreply flag.
\<close>

theorem C1_malformed_address_is_reported:
  "\<not> isValid (classifyEmail ''john.doe'')
   \<and> emailsToName (collectEmails flag [(''site'', [(''john.doe'', [''John''])])])
       = [(''john.doe'', [''John''])]
   \<and> leaked_emails (collectEmails flag [(''site'', [(''john.doe'', [''John''])])])
       = [''john.doe'']
   \<and> map detail_classification
        (email_details (collectEmails flag [(''site'', [(''john.doe'', [''John''])])]))
       = [''personal'']
   \<and> deduplicateEmails [(''john.doe'', [''John''])] = []"
proof -
  have c: "classifyEmail ''john.doe'' =
      \<lparr>email = ''john.doe'', isValid = False, isNoreply = False, isDisposable = False,
       domain = None, classification = ''personal''\<rparr>"
    by (simp add: classifyEmail_def Let_def)
  show ?thesis
    by (simp add: c collectEmails_def scanRepository_def recordCommitEmail_def Let_def
        initial_recon_state_def ensure_set_def map_has_def add_to_def set_add_def
        updateResultEmails_def reportEntry_def deduplicateEmails_def enrichEntry_def
        setOrEmpty_def)
qed

text \<open>
  C2, as stated, fails: with the exclusion on, a noreply address is withheld from the
  underlying maps when the commits are collected, so the maps differ from those built
  with no exclusion.
\<close>

theorem C2_noreply_withheld_from_maps:
  "emailsToName
     (collectEmails True [(''site'', [(''octocat@users.noreply.github.com'', [''Octo''])])])
     = []
   \<and> emailsToName
     (collectEmails False [(''site'', [(''octocat@users.noreply.github.com'', [''Octo''])])])
     = [(''octocat@users.noreply.github.com'', [''Octo''])]"
proof -
  have c: "isNoreply (classifyEmail ''octocat@users.noreply.github.com'')"
    by (simp add: classifyEmail_def Let_def noreply_patterns_def toLowerCase_def
        toLowerChar_def latin1_capitals_def latin1_smalls_def regex_anchored_suffix_def is_line_terminator_def)
  show ?thesis
    by (simp add: c collectEmails_def scanRepository_def recordCommitEmail_def Let_def
        initial_recon_state_def ensure_set_def map_has_def add_to_def set_add_def
        updateResultEmails_frame)
qed

text \<open>
  C2, amended. The projection \<open>updateResultEmails\<close> never changes the three maps. It
  reports, in the order of \<open>emailsToName\<close>, every entry of that map except, when the
  exclusion is on, those whose address is noreply; no other address is excluded, a
  disposable one in particular is reported. With the exclusion off, every observed email
  is a key of \<open>emailsToName\<close>. With the exclusion on (\<open>skipNoreply\<close> or \<open>smart\<close>), the
  noreply addresses are withheld from the maps at collection time: each map is the map
  collected with the exclusion off without its noreply entries. The report collected
  with the exclusion on is the one that the projection with the exclusion on gives from
  the maps collected with it off.
\<close>

theorem C2_projection_is_a_view_collection_withholds:
  "emailsToName (updateResultEmails f st) = emailsToName st
   \<and> emailsToRepo (updateResultEmails f st) = emailsToRepo st
   \<and> emailSources (updateResultEmails f st) = emailSources st
   \<and> leaked_emails (updateResultEmails f st)
       = map fst (filter (\<lambda>(addr, names). \<not> (f \<and> isNoreply (classifyEmail addr)))
           (emailsToName st))
   \<and> email_details (updateResultEmails f st)
       = map (detailOf st)
           (filter (\<lambda>(addr, names). \<not> (f \<and> isNoreply (classifyEmail addr)))
              (emailsToName st))
   \<and> fst ` set (emailsToName (collectEmails False scans))
       = (\<Union>scan \<in> set scans. fst ` set (snd scan))
   \<and> emailsToName (collectEmails True scans)
       = filter (\<lambda>(addr, names). \<not> isNoreply (classifyEmail addr))
           (emailsToName (collectEmails False scans))
   \<and> emailsToRepo (collectEmails True scans)
       = filter (\<lambda>(addr, repos). \<not> isNoreply (classifyEmail addr))
           (emailsToRepo (collectEmails False scans))
   \<and> emailSources (collectEmails True scans)
       = filter (\<lambda>(addr, tags). \<not> isNoreply (classifyEmail addr))
           (emailSources (collectEmails False scans))
   \<and> leaked_emails (collectEmails True scans)
       = leaked_emails (updateResultEmails True (collectEmails False scans))
   \<and> email_details (collectEmails True scans)
       = email_details (updateResultEmails True (collectEmails False scans))"
  (is "?f1 \<and> ?f2 \<and> ?f3 \<and> ?p1 \<and> ?p2 \<and> ?keys \<and> ?m1 \<and> ?m2 \<and> ?m3 \<and> ?r1 \<and> ?r2")
proof -
  note w = withheld_collectEmails [of scans]
  have rep: "reported f = (\<lambda>(addr, names). \<not> (f \<and> isNoreply (classifyEmail addr)))"
    by (auto simp: fun_eq_iff reported_def)
  have vis: "(\<lambda>(addr, v). visible addr) = (\<lambda>(addr, v). \<not> isNoreply (classifyEmail addr))"
    by (simp add: visible_def)
  have f1: ?f1 and f2: ?f2 and f3: ?f3
    by (simp_all only: updateResultEmails_frame)
  have p1: ?p1 and p2: ?p2
    by (simp_all only: updateResultEmails_report rep)
  have keys: ?keys
    by (rule keys_collectEmails)
  from w have m1: ?m1 and m2: ?m2 and m3: ?m3
    by (simp_all only: withheld_def visible_entries_def vis)
  have "withheld (fold (scanRepository True) scans initial_recon_state)
          (collectEmails False scans)"
    unfolding collectEmails_def
    using withheld_scans [of initial_recon_state initial_recon_state scans]
    by (simp add: withheld_def updateResultEmails_frame visible_entries_def
        initial_recon_state_def)
  from withheld_report [OF this] have r1: ?r1 and r2: ?r2
    by (simp_all add: collectEmails_def)
  from f1 f2 f3 p1 p2 keys m1 m2 m3 r1 r2 show ?thesis
    by (intro conjI)
qed

theorem C2_projection_is_a_view_collection_withholds_witness:
  "emailsToName
     (collectEmails True
        [(''site'', [(''octocat@users.noreply.github.com'', [''Octo'']),
                     (''dev@example.org'', [''Dev'']),
                     (''u@mailinator.com'', [''U''])])])
     = [(''dev@example.org'', [''Dev'']), (''u@mailinator.com'', [''U''])]
   \<and> leaked_emails
     (collectEmails True
        [(''site'', [(''octocat@users.noreply.github.com'', [''Octo'']),
                     (''dev@example.org'', [''Dev'']),
                     (''u@mailinator.com'', [''U''])])])
     = [''dev@example.org'', ''u@mailinator.com'']
   \<and> isDisposable (classifyEmail ''u@mailinator.com'')"
proof -
  let ?scans = "[(''site'', [(''octocat@users.noreply.github.com'', [''Octo'']),
                             (''dev@example.org'', [''Dev'']),
                             (''u@mailinator.com'', [''U''])])]"
  have c: "isNoreply (classifyEmail ''octocat@users.noreply.github.com'')"
    by (simp add: classifyEmail_def Let_def noreply_patterns_def toLowerCase_def
        toLowerChar_def latin1_capitals_def latin1_smalls_def regex_anchored_suffix_def
        is_line_terminator_def)
  have d: "\<not> isNoreply (classifyEmail ''dev@example.org'')"
    by (simp add: classifyEmail_def Let_def noreply_patterns_def toLowerCase_def
        toLowerChar_def latin1_capitals_def latin1_smalls_def regex_anchored_suffix_def)
  have u: "\<not> isNoreply (classifyEmail ''u@mailinator.com'')
      \<and> isDisposable (classifyEmail ''u@mailinator.com'')"
    by (simp add: classifyEmail_def Let_def noreply_patterns_def toLowerCase_def
        toLowerChar_def latin1_capitals_def latin1_smalls_def regex_anchored_suffix_def
        disposable_domains_def)
  have off: "emailsToName (collectEmails False ?scans)
      = [(''octocat@users.noreply.github.com'', [''Octo'']), (''dev@example.org'', [''Dev'']),
         (''u@mailinator.com'', [''U''])]"
    by (simp add: collectEmails_def scanRepository_def recordCommitEmail_def Let_def
        initial_recon_state_def ensure_set_def map_has_def add_to_def set_add_def
        updateResultEmails_frame)
  note t = C2_projection_is_a_view_collection_withholds
    [of True "collectEmails False ?scans" ?scans]
  from t have "emailsToName (collectEmails True ?scans)
       = filter (\<lambda>(addr, names). \<not> isNoreply (classifyEmail addr))
           (emailsToName (collectEmails False ?scans))"
    by (simp only: simp_thms)
  then have m: "emailsToName (collectEmails True ?scans)
       = [(''dev@example.org'', [''Dev'']), (''u@mailinator.com'', [''U''])]"
    unfolding off using c d u by simp
  from t have "leaked_emails (collectEmails True ?scans)
       = leaked_emails (updateResultEmails True (collectEmails False ?scans))"
    by (simp only: simp_thms)
  moreover from t have "leaked_emails (updateResultEmails True (collectEmails False ?scans))
       = map fst (filter (\<lambda>(addr, names). \<not> (True \<and> isNoreply (classifyEmail addr)))
           (emailsToName (collectEmails False ?scans)))"
    by (simp only: simp_thms)
  ultimately have "leaked_emails (collectEmails True ?scans)
       = [''dev@example.org'', ''u@mailinator.com'']"
    unfolding off using c d u by simp
  with m u show ?thesis
    by (simp only: simp_thms)
qed


section \<open>Properties of the repository collector\<close>

lemma processRepositories_fresh:
  "distinct (map name result) \<Longrightarrow> set (map name result) \<inter> seen = {} \<Longrightarrow>
     processRepositories mk result seen repos
       = (seen \<union> set (map name result),
          repos @ map (\<lambda>r. mk (name r) (fork r)) result, True)"
  by (induction result arbitrary: seen repos) auto

lemma processRepositories_repeat:
  "distinct (map name pre) \<Longrightarrow> set (map name pre) \<inter> seen = {} \<Longrightarrow>
   name d \<in> seen \<union> set (map name pre) \<Longrightarrow>
     processRepositories mk (pre @ d # post) seen repos
       = (seen \<union> set (map name pre), repos @ map (\<lambda>r. mk (name r) (fork r)) pre, False)"
  by (induction pre arbitrary: seen repos) auto

lemma getRepositories_short_page:
  assumes "call p = JArray result" and "length result < 100"
    and "distinct (map name result)" and "set (map name result) \<inter> seen = {}"
  shows "getRepositories_loop (Suc fuel) mk call p seen repos fetched
           = Some (repos @ map (\<lambda>r. mk (name r) (fork r)) result, fetched @ [p])"
  using assms by (simp add: getRepositories_loop.simps processRepositories_fresh)

lemma getRepositories_full_page:
  assumes "call p = JArray result" and "length result = 100"
    and "distinct (map name result)" and "set (map name result) \<inter> seen = {}"
  shows "getRepositories_loop (Suc fuel) mk call p seen repos fetched
           = getRepositories_loop fuel mk call (p + 1) (seen \<union> set (map name result))
               (repos @ map (\<lambda>r. mk (name r) (fork r)) result) (fetched @ [p])"
  using assms by (simp add: getRepositories_loop.simps processRepositories_fresh)

lemma getRepositories_repeat_page:
  assumes "call p = JArray (pre @ d # post)"
    and "distinct (map name pre)" and "set (map name pre) \<inter> seen = {}"
    and "name d \<in> seen \<union> set (map name pre)"
  shows "getRepositories_loop (Suc fuel) mk call p seen repos fetched
           = Some (repos @ map (\<lambda>r. mk (name r) (fork r)) pre, fetched @ [p])"
  using assms by (simp add: getRepositories_loop.simps processRepositories_repeat)

lemma getRepositories_two_pages:
  assumes "call 1 = JArray page1" and "call 2 = JArray page2"
    and "length page1 = 100" and "length page2 = 47"
    and "distinct (map name (page1 @ page2))" and "2 \<le> fuel"
  shows "getRepositories fuel mk call
           = Some (map (\<lambda>r. mk (name r) (fork r)) (page1 @ page2), [1, 2])"
proof -
  from \<open>2 \<le> fuel\<close> obtain k where fuel: "fuel = Suc (Suc k)"
    by (metis Suc_le_D numeral_2_eq_2 Suc_le_mono)
  from assms(5) have d1: "distinct (map name page1)" and d2: "distinct (map name page2)"
    and dis: "set (map name page2) \<inter> set (map name page1) = {}"
    by auto
  have "getRepositories fuel mk call
      = getRepositories_loop (Suc k) mk call 2 (set (map name page1))
          (map (\<lambda>r. mk (name r) (fork r)) page1) [1]"
    unfolding getRepositories_def fuel
    using getRepositories_full_page [where call = call and p = 1 and result = page1
        and seen = "{}" and fuel = "Suc k" and mk = mk and repos = "[]" and fetched = "[]"]
      assms(1,3) d1
    by (simp add: numeral_2_eq_2)
  also have "\<dots> = Some (map (\<lambda>r. mk (name r) (fork r)) page1
                           @ map (\<lambda>r. mk (name r) (fork r)) page2, [1, 2])"
    using getRepositories_short_page [where call = call and p = 2 and result = page2
        and seen = "set (map name page1)" and fuel = k and mk = mk
        and repos = "map (\<lambda>r. mk (name r) (fork r)) page1" and fetched = "[1]"]
      assms(2,4) d2 dis
    by (simp add: numeral_2_eq_2)
  finally show ?thesis
    by simp
qed

lemma getRepositories_repeat_on_page2:
  assumes "call 1 = JArray page1" and "call 2 = JArray (d # rest)"
    and "length page1 = 100" and "distinct (map name page1)"
    and "name d \<in> set (map name page1)" and "2 \<le> fuel"
  shows "getRepositories fuel mk call
           = Some (map (\<lambda>r. mk (name r) (fork r)) page1, [1, 2])"
proof -
  from \<open>2 \<le> fuel\<close> obtain k where fuel: "fuel = Suc (Suc k)"
    by (metis Suc_le_D numeral_2_eq_2 Suc_le_mono)
  have "getRepositories fuel mk call
      = getRepositories_loop (Suc k) mk call 2 (set (map name page1))
          (map (\<lambda>r. mk (name r) (fork r)) page1) [1]"
    unfolding getRepositories_def fuel
    using getRepositories_full_page [where call = call and p = 1 and result = page1
        and seen = "{}" and fuel = "Suc k" and mk = mk and repos = "[]" and fetched = "[]"]
      assms(1,3,4)
    by (simp add: numeral_2_eq_2)
  also have "\<dots> = Some (map (\<lambda>r. mk (name r) (fork r)) page1, [1, 2])"
    using getRepositories_repeat_page [where call = call and p = 2 and pre = "[]" and d = d
        and post = rest and seen = "set (map name page1)" and fuel = k and mk = mk
        and repos = "map (\<lambda>r. mk (name r) (fork r)) page1" and fetched = "[1]"]
      assms(2,5)
    by (simp add: numeral_2_eq_2)
  finally show ?thesis .
qed

text \<open>
  C3, as stated, fails: a page of fewer than 100 items is not always fully consumed. On a
  single page of three items whose second repeats the key of the first, the walk keeps
  the first item only, and the third, a fresh one, is never consumed.
\<close>

theorem C3_short_page_with_repeat_is_cut:
  "length [sample_repo 0, sample_repo 0, sample_repo 1] < 100
   \<and> getRepositories 1 Pair (\<lambda>p. JArray [sample_repo 0, sample_repo 0, sample_repo 1])
       = Some ([(''r'', False)], [1])"
  by (simp add: getRepositories_def getRepositories_loop.simps sample_repo_def)

text \<open>
  C3, amended. The walk starts at page 1. A page of fewer than 100 items none of whose
  keys was seen before (on an earlier page or earlier on the page) is consumed whole and
  the walk stops. A page of exactly 100 such items is consumed whole and the walk goes on
  to the next page. A page with an item whose key was already seen is consumed up to the
  items before the first such item, whatever its length, and no further page is fetched.
  With enough fuel for two pages: pages of 100 and 47 items with distinct keys give two
  fetches and the 147 items; a page 2 whose first item repeats a key of page 1 gives two
  fetches and the 100 items of page 1.
\<close>

theorem C3_collector_state_machine:
  "getRepositories fuel mk call = getRepositories_loop fuel mk call 1 {} [] []
   \<and> (call p = JArray result \<and> length result < 100
        \<and> distinct (map name result) \<and> set (map name result) \<inter> seen = {}
      \<longrightarrow> getRepositories_loop (Suc fuel) mk call p seen repos fetched
           = Some (repos @ map (\<lambda>r. mk (name r) (fork r)) result, fetched @ [p]))
   \<and> (call p = JArray result \<and> length result = 100
        \<and> distinct (map name result) \<and> set (map name result) \<inter> seen = {}
      \<longrightarrow> getRepositories_loop (Suc fuel) mk call p seen repos fetched
           = getRepositories_loop fuel mk call (p + 1) (seen \<union> set (map name result))
               (repos @ map (\<lambda>r. mk (name r) (fork r)) result) (fetched @ [p]))
   \<and> (call p = JArray (pre @ d # post)
        \<and> distinct (map name pre) \<and> set (map name pre) \<inter> seen = {}
        \<and> name d \<in> seen \<union> set (map name pre)
      \<longrightarrow> getRepositories_loop (Suc fuel) mk call p seen repos fetched
           = Some (repos @ map (\<lambda>r. mk (name r) (fork r)) pre, fetched @ [p]))
   \<and> (call 1 = JArray page1 \<and> call 2 = JArray page2
        \<and> length page1 = 100 \<and> length page2 = 47
        \<and> distinct (map name (page1 @ page2)) \<and> 2 \<le> fuel
      \<longrightarrow> getRepositories fuel mk call
           = Some (map (\<lambda>r. mk (name r) (fork r)) (page1 @ page2), [1, 2])
         \<and> length (map (\<lambda>r. mk (name r) (fork r)) (page1 @ page2)) = 147)
   \<and> (call 1 = JArray page1 \<and> call 2 = JArray (d # rest)
        \<and> length page1 = 100 \<and> distinct (map name page1)
        \<and> name d \<in> set (map name page1) \<and> 2 \<le> fuel
      \<longrightarrow> getRepositories fuel mk call
           = Some (map (\<lambda>r. mk (name r) (fork r)) page1, [1, 2])
         \<and> length (map (\<lambda>r. mk (name r) (fork r)) page1) = 100)"
  (is "?start \<and> ?short \<and> ?full \<and> ?repeat \<and> ?ex1 \<and> ?ex2")
proof -
  have start: ?start
    by (simp only: getRepositories_def)
  have short: ?short
    by (intro impI, elim conjE) (rule getRepositories_short_page)
  have full: ?full
    by (intro impI, elim conjE) (rule getRepositories_full_page)
  have repeat: ?repeat
    by (intro impI, elim conjE) (rule getRepositories_repeat_page)
  have ex1: ?ex1
    using getRepositories_two_pages [of call page1 page2 fuel mk]
    by simp
  have ex2: ?ex2
    using getRepositories_repeat_on_page2 [of call page1 d rest fuel mk]
    by simp
  from start short full repeat ex1 ex2 show ?thesis
    by (intro conjI)
qed

lemma sample_page_names: "map name (sample_page lo hi) = map (\<lambda>n. replicate (Suc n) CHR ''r'') [lo..<hi]"
  by (simp add: sample_page_def sample_repo_def)

lemma sample_names_distinct: "distinct (map (\<lambda>n. replicate (Suc n) CHR ''r'') [lo..<hi])"
  by (simp add: distinct_map inj_on_def)

theorem C3_collector_state_machine_witness:
  "getRepositories 2 Pair
      (\<lambda>p. if p = 1 then JArray (sample_page 0 100) else JArray (sample_page 100 147))
     = Some (map (\<lambda>r. (name r, fork r)) (sample_page 0 147), [1, 2])
   \<and> getRepositories 2 Pair
      (\<lambda>p. if p = 1 then JArray (sample_page 0 100) else JArray (sample_repo 7 # sample_page 100 199))
     = Some (map (\<lambda>r. (name r, fork r)) (sample_page 0 100), [1, 2])
   \<and> getRepositories 1 Pair (\<lambda>p. JArray (sample_page 0 3))
     = Some ([(''r'', False), (''rr'', False), (''rrr'', False)], [1])"
proof -
  let ?call1 = "\<lambda>p::nat. if p = 1 then JArray (sample_page 0 100) else JArray (sample_page 100 147)"
  let ?call2 = "\<lambda>p::nat. if p = 1 then JArray (sample_page 0 100)
                  else JArray (sample_repo 7 # sample_page 100 199)"
  have app: "sample_page 0 100 @ sample_page 100 147 = sample_page 0 147"
    unfolding sample_page_def map_append [symmetric]
    by (simp add: upt_add_eq_append [of 0 100 47, simplified])
  have d: "distinct (map name (sample_page 0 100 @ sample_page 100 147))"
    unfolding app sample_page_names by (rule sample_names_distinct)
  have h1: "?call1 1 = JArray (sample_page 0 100) \<and> ?call1 2 = JArray (sample_page 100 147)
      \<and> length (sample_page 0 100) = 100 \<and> length (sample_page 100 147) = 47
      \<and> distinct (map name (sample_page 0 100 @ sample_page 100 147)) \<and> (2::nat) \<le> 2"
    using d by (simp add: sample_page_def)
  have "name (sample_repo 7) \<in> set (map name (sample_page 0 100))"
    by (auto simp: sample_page_def intro!: image_eqI [where x = 7])
  then have h2: "?call2 1 = JArray (sample_page 0 100)
      \<and> ?call2 2 = JArray (sample_repo 7 # sample_page 100 199)
      \<and> length (sample_page 0 100) = 100 \<and> distinct (map name (sample_page 0 100))
      \<and> name (sample_repo 7) \<in> set (map name (sample_page 0 100)) \<and> (2::nat) \<le> 2"
    using sample_names_distinct [of 0 100]
    by (simp add: sample_page_names) (simp add: sample_page_def)
  have h3: "(\<lambda>p::nat. JArray (sample_page 0 3)) 1 = JArray (sample_page 0 3)
      \<and> length (sample_page 0 3) < 100
      \<and> distinct (map name (sample_page 0 3)) \<and> set (map name (sample_page 0 3)) \<inter> {} = {}"
    using sample_names_distinct [of 0 3]
    by (simp add: sample_page_names) (simp add: sample_page_def)
  note t1 = C3_collector_state_machine [where call = ?call1 and fuel = 2 and mk = Pair
      and ?page1.0 = "sample_page 0 100" and ?page2.0 = "sample_page 100 147"]
  note t2 = C3_collector_state_machine [where call = ?call2 and fuel = 2 and mk = Pair
      and ?page1.0 = "sample_page 0 100" and d = "sample_repo 7" and rest = "sample_page 100 199"]
  note t3 = C3_collector_state_machine [where call = "\<lambda>p::nat. JArray (sample_page 0 3)"
      and fuel = 0 and mk = Pair and p = 1 and result = "sample_page 0 3" and seen = "{}"
      and repos = "[]" and fetched = "[]"]
  from t1 h1 have r1: "getRepositories 2 Pair ?call1
     = Some (map (\<lambda>r. (name r, fork r)) (sample_page 0 147), [1, 2])"
    unfolding app [symmetric] by blast
  from t2 h2 have r2: "getRepositories 2 Pair ?call2
     = Some (map (\<lambda>r. (name r, fork r)) (sample_page 0 100), [1, 2])"
    by blast
  from t3 h3 have "getRepositories_loop (Suc 0) Pair (\<lambda>p::nat. JArray (sample_page 0 3)) 1 {} [] []
     = Some ([] @ map (\<lambda>r. (name r, fork r)) (sample_page 0 3), [] @ [1])"
    by blast
  then have r3: "getRepositories 1 Pair (\<lambda>p. JArray (sample_page 0 3))
     = Some ([(''r'', False), (''rr'', False), (''rrr'', False)], [1])"
    by (simp add: getRepositories_def sample_page_def sample_repo_def upt_rec numeral_3_eq_3)
  from r1 r2 r3 show ?thesis
    by (intro conjI)
qed


section \<open>Properties of the commit collector\<close>













section \<open>Properties of the priority scorer and the repository filter\<close>

lemma calculateRepoPriority_split:
  "calculateRepoPriority now r = recencyScore now (pushed_at r) + otherScore r"
  by (simp add: calculateRepoPriority_def recencyScore_def otherScore_def priorityWeights_def
      Let_def split: option.splits)

lemma monthsAgo_antimono: "t2 \<le> t1 \<Longrightarrow> monthsAgo now t1 \<le> monthsAgo now t2"
  by (simp add: monthsAgo_def divide_right_mono)

lemma recencyScore_mono:
  assumes "t2 \<le> t1"
  shows "recencyScore now (Some t2) \<le> recencyScore now (Some t1)"
  using monthsAgo_antimono [OF assms, of now]
  by (simp add: recencyScore_def)

lemma recencyScore_nonneg: "0 \<le> recencyScore now p"
  by (simp add: recencyScore_def split: option.splits)

lemma monthsAgo_less_iff:
  "monthsAgo now t < real k \<longleftrightarrow> now - t < int k * 2592000000"
proof -
  have "monthsAgo now t < real k \<longleftrightarrow> real_of_int (now - t) < real k * 2592000000"
    by (simp add: monthsAgo_def divide_less_eq)
  also have "real k * 2592000000 = real_of_int (int k * 2592000000)"
    by simp
  also have "real_of_int (now - t) < real_of_int (int k * 2592000000)
      \<longleftrightarrow> now - t < int k * 2592000000"
    by (rule of_int_less_iff)
  finally show ?thesis .
qed

text \<open>
  C8. Of two repositories that agree in description, fork flag, star count, archived
  flag and issues flag, the one pushed at least as recently scores at least as much; a
  repository without a push time scores no more than one with any. The push time adds
  the full weight 30 when it is less than one month (30 days) back, 0.7 times the
  weight under 6 months, 0.3 times under 12 months, and nothing otherwise.
\<close>

theorem C8_score_monotone_in_recency:
  "(description r1 = description r2 \<and> fork r1 = fork r2
      \<and> stargazers_count r1 = stargazers_count r2 \<and> archived r1 = archived r2
      \<and> has_issues r1 = has_issues r2
      \<and> pushed_at r1 = Some t1 \<and> pushed_at r2 = Some t2 \<and> t2 \<le> t1
    \<longrightarrow> calculateRepoPriority now r2 \<le> calculateRepoPriority now r1)
   \<and> (description r1 = description r2 \<and> fork r1 = fork r2
      \<and> stargazers_count r1 = stargazers_count r2 \<and> archived r1 = archived r2
      \<and> has_issues r1 = has_issues r2 \<and> pushed_at r2 = None
    \<longrightarrow> calculateRepoPriority now r2 \<le> calculateRepoPriority now r1)
   \<and> calculateRepoPriority now (r\<lparr>pushed_at := Some t\<rparr>)
       = calculateRepoPriority now (r\<lparr>pushed_at := None\<rparr>)
         + (if monthsAgo now t < 1 then 30
            else if monthsAgo now t < 6 then 0.7 * 30
            else if monthsAgo now t < 12 then 0.3 * 30
            else 0)
   \<and> (monthsAgo now t < real k \<longleftrightarrow> now - t < int k * (30 * 24 * 60 * 60 * 1000))"
  (is "?mono \<and> ?none \<and> ?tiers \<and> ?month")
proof -
  have mono: ?mono
  proof (intro impI, elim conjE)
    assume a: "description r1 = description r2" "fork r1 = fork r2"
      "stargazers_count r1 = stargazers_count r2" "archived r1 = archived r2"
      "has_issues r1 = has_issues r2"
      and p: "pushed_at r1 = Some t1" "pushed_at r2 = Some t2" and le: "t2 \<le> t1"
    from a have "otherScore r1 = otherScore r2"
      by (simp add: otherScore_def)
    with recencyScore_mono [OF le, of now] p
    show "calculateRepoPriority now r2 \<le> calculateRepoPriority now r1"
      by (simp add: calculateRepoPriority_split)
  qed
  have none: ?none
  proof (intro impI, elim conjE)
    assume a: "description r1 = description r2" "fork r1 = fork r2"
      "stargazers_count r1 = stargazers_count r2" "archived r1 = archived r2"
      "has_issues r1 = has_issues r2"
      and p: "pushed_at r2 = None"
    from a have "otherScore r1 = otherScore r2"
      by (simp add: otherScore_def)
    with recencyScore_nonneg [of now "pushed_at r1"] p
    show "calculateRepoPriority now r2 \<le> calculateRepoPriority now r1"
      by (simp add: calculateRepoPriority_split recencyScore_def)
  qed
  have tiers: ?tiers
    by (simp add: calculateRepoPriority_split recencyScore_def otherScore_def)
  have month: ?month
    using monthsAgo_less_iff [of now t k] by simp
  from mono none tiers month show ?thesis
    by (intro conjI)
qed

theorem C8_score_monotone_in_recency_witness:
  "calculateRepoPriority 1700000000000 (sample_repo 0\<lparr>pushed_at := Some 1690000000000\<rparr>) = 56
   \<and> calculateRepoPriority 1700000000000 (sample_repo 1\<lparr>pushed_at := Some 1699000000000\<rparr>)
       = 65
   \<and> calculateRepoPriority 1700000000000 (sample_repo 0\<lparr>pushed_at := Some 1690000000000\<rparr>)
       \<le> calculateRepoPriority 1700000000000
            (sample_repo 1\<lparr>pushed_at := Some 1699000000000\<rparr>)
   \<and> calculateRepoPriority 1700000000000 (sample_repo 0)
       \<le> calculateRepoPriority 1700000000000
            (sample_repo 1\<lparr>pushed_at := Some 1699000000000\<rparr>)"
proof -
  let ?r1 = "sample_repo 1\<lparr>pushed_at := Some 1699000000000\<rparr>"
  let ?r2 = "sample_repo 0\<lparr>pushed_at := Some 1690000000000\<rparr>"
  have h: "description ?r1 = description ?r2 \<and> fork ?r1 = fork ?r2
      \<and> stargazers_count ?r1 = stargazers_count ?r2 \<and> archived ?r1 = archived ?r2
      \<and> has_issues ?r1 = has_issues ?r2
      \<and> pushed_at ?r1 = Some 1699000000000 \<and> pushed_at ?r2 = Some 1690000000000
      \<and> (1690000000000::int) \<le> 1699000000000"
    by (simp add: sample_repo_def)
  have h0: "description ?r1 = description (sample_repo 0) \<and> fork ?r1 = fork (sample_repo 0)
      \<and> stargazers_count ?r1 = stargazers_count (sample_repo 0)
      \<and> archived ?r1 = archived (sample_repo 0)
      \<and> has_issues ?r1 = has_issues (sample_repo 0) \<and> pushed_at (sample_repo 0) = None"
    by (simp add: sample_repo_def)
  note mono = C8_score_monotone_in_recency [of ?r1 ?r2 1699000000000 1690000000000
      1700000000000, THEN conjunct1, rule_format, OF h]
  note none = C8_score_monotone_in_recency [of ?r1 "sample_repo 0" _ _ 1700000000000,
      THEN conjunct2, THEN conjunct1, rule_format, OF h0]
  have v2: "calculateRepoPriority 1700000000000 ?r2 = 56"
    by (simp add: calculateRepoPriority_def Let_def monthsAgo_def priorityWeights_def
        sample_repo_def truthy_def)
  have v1: "calculateRepoPriority 1700000000000 ?r1 = 65"
    by (simp add: calculateRepoPriority_def Let_def monthsAgo_def priorityWeights_def
        sample_repo_def truthy_def)
  from v2 v1 mono none show ?thesis
    by (intro conjI)
qed















end
